theory Spec2Isabelle
  imports Complex_Main
begin

section \<open>Python values\<close>

text \<open>
  A Python \<open>str\<close> is a sequence of Unicode code points, so a string is a list of natural
  numbers (the code points) and its length counts code points. \<open>cp\<close> turns an ASCII
  literal into such a string.
\<close>

type_synonym pystr = "nat list"

definition cp :: "string \<Rightarrow> pystr" where
  "cp s = map of_char s"

text \<open>
  The values that \<open>json.loads\<close> and \<open>request.get_json\<close> produce, and that \<open>jsonify\<close>
  sends back. A dictionary is an association list with the lookup of \<open>map_of\<close>. A float
  is its real value.
\<close>

datatype pyval =
    PNone
  | PBool bool
  | PInt int
  | PFloat real
  | PStr pystr
  | PList "pyval list"
  | PDict "(pystr \<times> pyval) list"

text \<open>The exceptions the handlers meet, each with the text of \<open>str(e)\<close>.\<close>

datatype exn =
    TypeError pystr
  | AttributeError pystr
  | JSONDecodeError pystr
  | OSError pystr
  | RequestEntityTooLarge pystr
  | OtherError pystr

fun str_exn :: "exn \<Rightarrow> pystr" where
  "str_exn (TypeError m) = m"
| "str_exn (AttributeError m) = m"
| "str_exn (JSONDecodeError m) = m"
| "str_exn (OSError m) = m"
| "str_exn (RequestEntityTooLarge m) = m"
| "str_exn (OtherError m) = m"

fun is_JSONDecodeError :: "exn \<Rightarrow> bool" where
  "is_JSONDecodeError (JSONDecodeError m) = True"
| "is_JSONDecodeError e = False"

text \<open>Truth value of a Python object, as \<open>if not data\<close> tests it.\<close>

fun truthy :: "pyval \<Rightarrow> bool" where
  "truthy PNone = False"
| "truthy (PBool b) = b"
| "truthy (PInt i) = (i \<noteq> 0)"
| "truthy (PFloat r) = (r \<noteq> 0)"
| "truthy (PStr s) = (s \<noteq> [])"
| "truthy (PList xs) = (xs \<noteq> [])"
| "truthy (PDict kvs) = (kvs \<noteq> [])"

text \<open>
  \<open>data.get(key, default)\<close>: a dictionary answers with the value stored under the key
  (whatever it is, \<open>None\<close> included) or with the default; any other JSON value has no
  attribute \<open>get\<close>.
\<close>

fun py_get :: "pyval \<Rightarrow> pystr \<Rightarrow> pyval \<Rightarrow> exn + pyval" where
  "py_get (PDict kvs) k d = Inr (case map_of kvs k of Some v \<Rightarrow> v | None \<Rightarrow> d)"
| "py_get v k d = Inl (AttributeError (cp ''object has no attribute 'get' ''))"

section \<open>Character classes of the Python runtime\<close>

text \<open>
  In a \<open>str\<close> pattern \<open>\d\<close> matches every Unicode decimal digit (category Nd), not only
  \<open>0\<close> to \<open>9\<close>. The ranges are those of Unicode 14.
\<close>

definition decimal_ranges :: "(nat \<times> nat) list" where
  "decimal_ranges =
   [(48, 57), (1632, 1641), (1776, 1785), (1984, 1993), (2406, 2415), (2534, 2543),
    (2662, 2671), (2790, 2799), (2918, 2927), (3046, 3055), (3174, 3183), (3302, 3311),
    (3430, 3439), (3558, 3567), (3664, 3673), (3792, 3801), (3872, 3881), (4160, 4169),
    (4240, 4249), (6112, 6121), (6160, 6169), (6470, 6479), (6608, 6617), (6784, 6793),
    (6800, 6809), (6992, 7001), (7088, 7097), (7232, 7241), (7248, 7257), (42528, 42537),
    (43216, 43225), (43264, 43273), (43472, 43481), (43504, 43513), (43600, 43609),
    (44016, 44025), (65296, 65305), (66720, 66729), (68912, 68921), (69734, 69743),
    (69872, 69881), (69942, 69951), (70096, 70105), (70384, 70393), (70736, 70745),
    (70864, 70873), (71248, 71257), (71360, 71369), (71472, 71481), (71904, 71913),
    (72016, 72025), (72784, 72793), (73040, 73049), (73120, 73129), (92768, 92777),
    (92864, 92873), (93008, 93017), (120782, 120831), (123200, 123209), (123632, 123641),
    (125264, 125273), (130032, 130041)]"

definition in_range :: "nat \<Rightarrow> nat \<times> nat \<Rightarrow> bool" where
  "in_range c r = (fst r \<le> c \<and> c \<le> snd r)"

definition unicode_decimal :: "nat \<Rightarrow> bool" where
  "unicode_decimal c = list_ex (in_range c) decimal_ranges"

definition ascii_digit :: "nat \<Rightarrow> bool" where
  "ascii_digit c = (48 \<le> c \<and> c \<le> 57)"

text \<open>The code points for which \<open>str.isspace\<close> holds: what \<open>str.strip()\<close> removes.\<close>

definition py_space :: "nat \<Rightarrow> bool" where
  "py_space c = ((9 \<le> c \<and> c \<le> 13) \<or> (28 \<le> c \<and> c \<le> 32) \<or> c = 133 \<or> c = 160
     \<or> c = 5760 \<or> (8192 \<le> c \<and> c \<le> 8202) \<or> c = 8232 \<or> c = 8233 \<or> c = 8239
     \<or> c = 8287 \<or> c = 12288)"

text \<open>
  \<open>str.lower()\<close> on the ASCII letters. Outside ASCII the model leaves a code point as it
  is: the case mapping of Unicode sends no code point beyond ASCII to an ASCII letter
  other than \<open>i\<close> and \<open>k\<close>, so the comparison with \<open>pdf\<close> below does not depend on it.
\<close>

definition lower_cp :: "nat \<Rightarrow> nat" where
  "lower_cp c = (if 65 \<le> c \<and> c \<le> 90 then c + 32 else c)"

definition lower :: "pystr \<Rightarrow> pystr" where
  "lower s = map lower_cp s"

definition strip :: "pystr \<Rightarrow> pystr" where
  "strip s = rev (dropWhile py_space (rev (dropWhile py_space s)))"

text \<open>
  \<open>s.replace(old, new)\<close>: the occurrences of \<open>old\<close> are found from the left and do not
  overlap; an empty \<open>old\<close> matches before every character and at the end.
\<close>

function replace :: "pystr \<Rightarrow> pystr \<Rightarrow> pystr \<Rightarrow> pystr" where
  "replace old new [] = (if old = [] then new else [])"
| "replace old new (c # s) =
     (if old = [] then new @ c # replace old new s
      else if take (length old) (c # s) = old
           then new @ replace old new (drop (length old) (c # s))
           else c # replace old new s)"
  by pat_completeness auto
termination
  by (relation "measure (\<lambda>(old, new, s). length s)") auto

section \<open>Regular expressions of the validators\<close>

text \<open>
  Both patterns are sequences of one-character atoms with a fixed repetition count:
  \<open>\d{8}\<close> and \<open>\d{2}-\d{2}-\d{2}\<close>. \<open>fullmatch\<close> consumes the whole string.
\<close>

datatype atom = Digit | Lit nat

fun atom_matches :: "atom \<Rightarrow> nat \<Rightarrow> bool" where
  "atom_matches Digit c = unicode_decimal c"
| "atom_matches (Lit l) c = (c = l)"

fun fullmatch :: "(atom \<times> nat) list \<Rightarrow> pystr \<Rightarrow> bool" where
  "fullmatch [] s = (s = [])"
| "fullmatch ((a, 0) # p) s = fullmatch p s"
| "fullmatch ((a, Suc n) # p) [] = False"
| "fullmatch ((a, Suc n) # p) (c # s) = (atom_matches a c \<and> fullmatch ((a, n) # p) s)"

text \<open>\<open>re.fullmatch\<close> raises \<open>TypeError\<close> on an argument that is not a string.\<close>

fun re_fullmatch :: "(atom \<times> nat) list \<Rightarrow> pyval \<Rightarrow> exn + bool" where
  "re_fullmatch p (PStr s) = Inr (fullmatch p s)"
| "re_fullmatch p v = Inl (TypeError (cp ''expected string or bytes-like object''))"

definition HYPHEN :: nat where
  "HYPHEN = 45"

definition ACCOUNT_RE :: "(atom \<times> nat) list" where
  "ACCOUNT_RE = [(Digit, 8)]"

definition SORT_CODE_RE :: "(atom \<times> nat) list" where
  "SORT_CODE_RE = [(Digit, 2), (Lit HYPHEN, 1), (Digit, 2), (Lit HYPHEN, 1), (Digit, 2)]"

definition validate_account :: "pyval \<Rightarrow> exn + bool" where
  "validate_account acc = re_fullmatch ACCOUNT_RE acc"

definition validate_sort_code :: "pyval \<Rightarrow> exn + bool" where
  "validate_sort_code code = re_fullmatch SORT_CODE_RE code"

section \<open>File names\<close>

definition DOT :: nat where
  "DOT = 46"

definition ALLOWED_EXTENSIONS :: "pystr list" where
  "ALLOWED_EXTENSIONS = [cp ''pdf'']"

text \<open>
  \<open>s.rsplit(sep, 1)\<close> scans from the right end for the separator. \<open>rscan sep s i\<close> looks
  at the positions below \<open>i\<close>, highest first, and answers with the position of the
  first separator it meets.
\<close>

fun rscan :: "nat \<Rightarrow> pystr \<Rightarrow> nat \<Rightarrow> nat option" where
  "rscan sep s 0 = None"
| "rscan sep s (Suc i) = (if s ! i = sep then Some i else rscan sep s i)"

definition rsplit1 :: "nat \<Rightarrow> pystr \<Rightarrow> pystr list" where
  "rsplit1 sep s =
     (case rscan sep s (length s) of
        None \<Rightarrow> [s]
      | Some i \<Rightarrow> [take i s, drop (Suc i) s])"

text \<open>
  \<open>'.' in filename and filename.rsplit('.', 1)[1].lower() in ALLOWED_EXTENSIONS\<close>;
  \<open>and\<close> does not evaluate its right side when the left one is false, so the index
  \<open>[1]\<close> is only taken when the list has two elements.
\<close>

definition allowed_file :: "pystr \<Rightarrow> bool" where
  "allowed_file filename =
     (DOT \<in> set filename \<and>
      (case rsplit1 DOT filename of
         [a, b] \<Rightarrow> lower b \<in> set ALLOWED_EXTENSIONS
       | _ \<Rightarrow> False))"


section \<open>The world outside the handlers\<close>

text \<open>
  The file system is the set of paths that exist; the interpreter is watched through
  the list of prompts it was sent, latest first.
\<close>

record world =
  files :: "pystr set"
  prompts :: "pystr list"

text \<open>
  The collaborators the handlers call and do not define: \<open>secure_filename\<close> of werkzeug,
  \<open>file.save\<close>, the pages of \<open>pdfplumber\<close> (what \<open>extract_text()\<close> gives for each page,
  \<open>None\<close> included), \<open>model.generate_content(prompt).text\<close>, \<open>json.loads\<close>, and the
  error, if any, that \<open>os.remove\<close> meets on a file that exists.
\<close>

record env =
  secure_filename :: "pystr \<Rightarrow> pystr"
  save_error :: "pystr \<Rightarrow> exn option"
  pdf_pages :: "pystr \<Rightarrow> exn + pystr option list"
  generate_content :: "pystr \<Rightarrow> exn + pystr"
  json_loads :: "pystr \<Rightarrow> exn + pyval"
  remove_error :: "pystr \<Rightarrow> exn option"

datatype response = Response (body: pyval) (status: nat)

text \<open>A handler returns a response, or an exception leaves it.\<close>

datatype outcome = Returned response | Raised exn

definition SLASH :: nat where
  "SLASH = 47"

definition NEWLINE :: nat where
  "NEWLINE = 10"

definition UPLOAD_FOLDER :: pystr where
  "UPLOAD_FOLDER = cp ''uploads''"

definition os_path_join :: "pystr \<Rightarrow> pystr \<Rightarrow> pystr" where
  "os_path_join a b =
     (if b \<noteq> [] \<and> hd b = SLASH then b
      else if a = [] \<or> last a = SLASH then a @ b
      else a @ SLASH # b)"

definition os_path_exists :: "pystr \<Rightarrow> world \<Rightarrow> bool" where
  "os_path_exists p w = (p \<in> files w)"

definition os_remove :: "env \<Rightarrow> pystr \<Rightarrow> world \<Rightarrow> exn + world" where
  "os_remove e p w =
     (if p \<notin> files w then Inl (OSError (cp ''No such file or directory''))
      else case remove_error e p of
             Some x \<Rightarrow> Inl x
           | None \<Rightarrow> Inr (w\<lparr>files := files w - {p}\<rparr>))"

definition file_save :: "env \<Rightarrow> pystr \<Rightarrow> world \<Rightarrow> exn + world" where
  "file_save e p w =
     (case save_error e p of
        Some x \<Rightarrow> Inl x
      | None \<Rightarrow> Inr (w\<lparr>files := insert p (files w)\<rparr>))"

section \<open>Text extraction and the interpreter\<close>

text \<open>A page whose text is \<open>None\<close> or empty adds nothing; any other adds its text and a newline.\<close>

definition add_page :: "pystr \<Rightarrow> pystr option \<Rightarrow> pystr" where
  "add_page full_text text =
     (case text of
        None \<Rightarrow> full_text
      | Some t \<Rightarrow> if t \<noteq> [] then full_text @ t @ [NEWLINE] else full_text)"

definition extract_text_from_pdf :: "env \<Rightarrow> pystr \<Rightarrow> exn + pystr" where
  "extract_text_from_pdf e pdf_path =
     (case pdf_pages e pdf_path of
        Inl x \<Rightarrow> Inl x
      | Inr pages \<Rightarrow> Inr (foldl add_page [] pages))"

definition unlines :: "pystr list \<Rightarrow> pystr" where
  "unlines ls = concat (map (\<lambda>l. l @ [NEWLINE]) ls)"

definition QUOTE :: nat where
  "QUOTE = 34"

definition PROMPT_HEAD :: "pystr list" where
  "PROMPT_HEAD =
    [cp ''You are an expert UK bank statement parser.'',
     cp ''Extract information from ANY UK bank statement.'',
     cp ''RULES:'',
     cp ''- Account number = 8 digits'',
     cp ''- Sort code format = XX-XX-XX'',
     cp ''- Currency = GBP'',
     cp ''- Identify debit vs credit automatically'',
     cp ''- Return ONLY valid JSON'',
     cp ''- Use null where data is missing'',
     cp ''JSON FORMAT:'',
     cp ''{'',
     cp ''  '' @ QUOTE # cp ''account_number'' @ QUOTE # cp '': '' @ [QUOTE, QUOTE] @ cp '','',
     cp ''  '' @ QUOTE # cp ''sort_code'' @ QUOTE # cp '': '' @ [QUOTE, QUOTE] @ cp '','',
     cp ''  '' @ QUOTE # cp ''currency'' @ QUOTE # cp '': '' @ QUOTE # cp ''GBP'' @ QUOTE # cp '','',
     cp ''  '' @ QUOTE # cp ''transactions'' @ QUOTE # cp '': ['',
     cp ''    {'',
     cp ''      '' @ QUOTE # cp ''date'' @ QUOTE # cp '': '' @ [QUOTE, QUOTE] @ cp '','',
     cp ''      '' @ QUOTE # cp ''description'' @ QUOTE # cp '': '' @ [QUOTE, QUOTE] @ cp '','',
     cp ''      '' @ QUOTE # cp ''debit'' @ QUOTE # cp '': null,'',
     cp ''      '' @ QUOTE # cp ''credit'' @ QUOTE # cp '': null,'',
     cp ''      '' @ QUOTE # cp ''balance'' @ QUOTE # cp '': null'',
     cp ''    }'',
     cp ''  ]'',
     cp ''}'',
     cp ''STATEMENT TEXT:'']"

definition prompt :: "pystr \<Rightarrow> pystr" where
  "prompt statement_text = NEWLINE # unlines PROMPT_HEAD @ statement_text @ [NEWLINE]"

text \<open>The call is one more prompt sent, whether it answers or raises.\<close>

definition extract_bank_data_with_gemini :: "env \<Rightarrow> pystr \<Rightarrow> world \<Rightarrow> (exn + pystr) \<times> world" where
  "extract_bank_data_with_gemini e statement_text w =
     (generate_content e (prompt statement_text),
      w\<lparr>prompts := prompt statement_text # prompts w\<rparr>)"

section \<open>Cleaning the interpreter's answer\<close>

definition BACKTICK :: nat where
  "BACKTICK = 96"

definition FENCE :: pystr where
  "FENCE = [BACKTICK, BACKTICK, BACKTICK]"

definition FENCE_JSON :: pystr where
  "FENCE_JSON = FENCE @ cp ''json''"

text \<open>\<open>ai_output.strip().replace("```json", "").replace("```", "")\<close>\<close>

definition clean_output :: "pystr \<Rightarrow> pystr" where
  "clean_output ai_output = replace FENCE [] (replace FENCE_JSON [] (strip ai_output))"

definition clean_and_parse :: "env \<Rightarrow> pystr \<Rightarrow> exn + pyval" where
  "clean_and_parse e ai_output = json_loads e (clean_output ai_output)"

section \<open>The handlers\<close>

definition bind_exn :: "exn + 'a \<Rightarrow> ('a \<Rightarrow> exn + 'b) \<Rightarrow> exn + 'b" where
  "bind_exn m f = (case m of Inl x \<Rightarrow> Inl x | Inr v \<Rightarrow> f v)"

definition error_body :: "pystr \<Rightarrow> pyval" where
  "error_body msg = PDict [(cp ''error'', PStr msg)]"

definition error_details_body :: "pystr \<Rightarrow> exn \<Rightarrow> pyval" where
  "error_details_body msg x = PDict [(cp ''error'', PStr msg), (cp ''details'', PStr (str_exn x))]"

text \<open>
  \<open>validate_account(data.get("account_number", ""))\<close> and then
  \<open>validate_sort_code(data.get("sort_code", ""))\<close>.
\<close>

definition validate_fields :: "pyval \<Rightarrow> exn + bool \<times> bool" where
  "validate_fields data =
     bind_exn (py_get data (cp ''account_number'') (PStr [])) (\<lambda>acc.
     bind_exn (validate_account acc) (\<lambda>account_valid.
     bind_exn (py_get data (cp ''sort_code'') (PStr [])) (\<lambda>code.
     bind_exn (validate_sort_code code) (\<lambda>sort_code_valid.
     Inr (account_valid, sort_code_valid)))))"

definition response_data :: "pyval \<Rightarrow> bool \<Rightarrow> bool \<Rightarrow> pystr \<Rightarrow> pyval" where
  "response_data data account_valid sort_code_valid statement_text =
     PDict [(cp ''success'', PBool True),
            (cp ''data'', data),
            (cp ''validation'',
               PDict [(cp ''account_number_valid'', PBool account_valid),
                      (cp ''sort_code_valid'', PBool sort_code_valid)]),
            (cp ''extracted_text_preview'', PStr (take 500 statement_text))]"

text \<open>
  The body of the \<open>try\<close> of \<open>parse_statement\<close>, from the call of the interpreter on. The
  result is what the body returns or raises, and the world it leaves.
\<close>

definition interpret_and_respond :: "env \<Rightarrow> pystr \<Rightarrow> pystr \<Rightarrow> world \<Rightarrow> (exn + response) \<times> world" where
  "interpret_and_respond e filepath statement_text w =
     (case extract_bank_data_with_gemini e statement_text w of
        (Inl x, w1) \<Rightarrow> (Inl x, w1)
      | (Inr ai_output, w1) \<Rightarrow>
          (case clean_and_parse e ai_output of
             Inl x \<Rightarrow> (Inl x, w1)
           | Inr data \<Rightarrow>
               (case validate_fields data of
                  Inl x \<Rightarrow> (Inl x, w1)
                | Inr (account_valid, sort_code_valid) \<Rightarrow>
                    (case os_remove e filepath w1 of
                       Inl x \<Rightarrow> (Inl x, w1)
                     | Inr w2 \<Rightarrow>
                         (Inr (Response
                            (response_data data account_valid sort_code_valid statement_text)
                            200), w2)))))"

text \<open>The body of the \<open>try\<close> once the upload is stored at \<open>filepath\<close>.\<close>

definition process_stored :: "env \<Rightarrow> pystr \<Rightarrow> world \<Rightarrow> (exn + response) \<times> world" where
  "process_stored e filepath w =
     (case extract_text_from_pdf e filepath of
        Inl x \<Rightarrow> (Inl x, w)
      | Inr statement_text \<Rightarrow>
          if strip statement_text = [] then
            (case os_remove e filepath w of
               Inl x \<Rightarrow> (Inl x, w)
             | Inr w1 \<Rightarrow>
                 (Inr (Response (error_body (cp ''Could not extract text from PDF'')) 400), w1))
          else interpret_and_respond e filepath statement_text w)"

text \<open>
  A request to \<open>/parse-statement\<close>: the length of its body and the file name of its
  part \<open>file\<close>, if it has one.
\<close>

record request =
  content_length :: nat
  file_part :: "pystr option"

definition MAX_CONTENT_LENGTH :: nat where
  "MAX_CONTENT_LENGTH = 16 * 1024 * 1024"

text \<open>
  Reading \<open>request.files\<close> parses the body, and werkzeug refuses a body longer than
  \<open>MAX_CONTENT_LENGTH\<close> with the exception \<open>RequestEntityTooLarge\<close>.
\<close>

definition request_files :: "request \<Rightarrow> exn + pystr option" where
  "request_files req =
     (if MAX_CONTENT_LENGTH < content_length req
      then Inl (RequestEntityTooLarge (cp (''413 Request Entity Too Large: '' @
             ''The data value transmitted exceeds the capacity limit.'')))
      else Inr (file_part req))"

text \<open>
  The whole body of the \<open>try\<close>, which begins by reading \<open>request.files\<close>. The third
  component is the local variable \<open>filepath\<close>, if the body got as far as assigning
  it.
\<close>

definition parse_statement_try ::
  "env \<Rightarrow> request \<Rightarrow> world \<Rightarrow> (exn + response) \<times> world \<times> pystr option" where
  "parse_statement_try e req w =
     (case request_files req of
        Inl x \<Rightarrow> (Inl x, w, None)
      | Inr None \<Rightarrow> (Inr (Response (error_body (cp ''No file provided'')) 400), w, None)
      | Inr (Some file_filename) \<Rightarrow>
          if file_filename = [] then
            (Inr (Response (error_body (cp ''No file selected'')) 400), w, None)
          else if \<not> allowed_file file_filename then
            (Inr (Response (error_body (cp ''Only PDF files are allowed'')) 400), w, None)
          else
            let filename = secure_filename e file_filename;
                filepath = os_path_join UPLOAD_FOLDER filename
            in (case file_save e filepath w of
                  Inl x \<Rightarrow> (Inl x, w, Some filepath)
                | Inr w1 \<Rightarrow>
                    (case process_stored e filepath w1 of
                       (r, w2) \<Rightarrow> (r, w2, Some filepath))))"

text \<open>
  The \<open>except\<close> clauses: a \<open>JSONDecodeError\<close> is answered at once; any other exception
  removes the file when \<open>filepath\<close> is bound and the file exists, and an error of that
  removal leaves the handler.
\<close>

definition parse_statement :: "env \<Rightarrow> request \<Rightarrow> world \<Rightarrow> outcome \<times> world" where
  "parse_statement e req w =
     (case parse_statement_try e req w of
        (Inr r, w1, fp) \<Rightarrow> (Returned r, w1)
      | (Inl x, w1, fp) \<Rightarrow>
          if is_JSONDecodeError x then
            (Returned (Response
               (error_details_body (cp ''Failed to parse AI response as JSON'') x) 500), w1)
          else
            (case fp of
               None \<Rightarrow>
                 (Returned (Response
                    (error_details_body (cp ''An error occurred while processing the file'') x)
                    500), w1)
             | Some filepath \<Rightarrow>
                 if os_path_exists filepath w1 then
                   (case os_remove e filepath w1 of
                      Inl y \<Rightarrow> (Raised y, w1)
                    | Inr w2 \<Rightarrow>
                        (Returned (Response
                           (error_details_body
                              (cp ''An error occurred while processing the file'') x)
                           500), w2))
                 else
                   (Returned (Response
                      (error_details_body (cp ''An error occurred while processing the file'') x)
                      500), w1)))"

text \<open>
  \<open>validate_data\<close>. The argument is what \<open>request.get_json()\<close> gives: the parsed body, or
  the exception it raises.
\<close>

definition validate_data_try :: "exn + pyval \<Rightarrow> exn + response" where
  "validate_data_try got =
     bind_exn got (\<lambda>data.
       if \<not> truthy data then Inr (Response (error_body (cp ''No JSON data provided'')) 400)
       else
         bind_exn (py_get data (cp ''account_number'') (PStr [])) (\<lambda>account.
         bind_exn (py_get data (cp ''sort_code'') (PStr [])) (\<lambda>sort_code.
         bind_exn (validate_account account) (\<lambda>account_valid.
         bind_exn (validate_sort_code sort_code) (\<lambda>sort_code_valid.
         Inr (Response
           (PDict [(cp ''account_number'', account),
                   (cp ''account_valid'', PBool account_valid),
                   (cp ''sort_code'', sort_code),
                   (cp ''sort_code_valid'', PBool sort_code_valid)])
           200))))))"

definition validate_data :: "exn + pyval \<Rightarrow> response" where
  "validate_data got =
     (case validate_data_try got of
        Inr r \<Rightarrow> r
      | Inl x \<Rightarrow> Response (error_details_body (cp ''Validation failed'') x) 500)"

section \<open>Notions of the specification\<close>

text \<open>The part of a string after its last separator.\<close>

definition after_last :: "nat \<Rightarrow> pystr \<Rightarrow> pystr" where
  "after_last sep s = rev (takeWhile (\<lambda>c. c \<noteq> sep) (rev s))"

text \<open>A file name with the extension \<open>.pdf\<close>, in any mix of upper and lower case.\<close>

definition has_pdf_extension :: "pystr \<Rightarrow> bool" where
  "has_pdf_extension f = (4 \<le> length f \<and> lower (drop (length f - 4) f) = cp ''.pdf'')"

text \<open>Exactly eight digits, for a given notion of digit.\<close>

definition eight_digits :: "(nat \<Rightarrow> bool) \<Rightarrow> pystr \<Rightarrow> bool" where
  "eight_digits digit s = (length s = 8 \<and> list_all digit s)"

text \<open>The shape \<open>DD-DD-DD\<close>, for a given notion of digit.\<close>

fun sort_code_shape :: "(nat \<Rightarrow> bool) \<Rightarrow> pystr \<Rightarrow> bool" where
  "sort_code_shape digit [a, b, h, c, d, i, e, f] =
     (digit a \<and> digit b \<and> h = HYPHEN \<and> digit c \<and> digit d \<and> i = HYPHEN \<and> digit e \<and> digit f)"
| "sort_code_shape digit s = False"

definition is_ascii :: "pystr \<Rightarrow> bool" where
  "is_ascii s = list_all (\<lambda>c. c < 128) s"

text \<open>
  An answer of the interpreter in a markdown code fence: the opening fence with the
  word \<open>json\<close> on a line of its own, the text, and the closing fence on the next line.
\<close>

definition fenced :: "pystr \<Rightarrow> pystr" where
  "fenced j = FENCE_JSON @ NEWLINE # j @ NEWLINE # FENCE"

text \<open>The white space of JSON (space, tab, line feed, carriage return).\<close>

definition json_space :: "nat \<Rightarrow> bool" where
  "json_space c = (c = 32 \<or> c = 9 \<or> c = 10 \<or> c = 13)"

definition json_trim :: "pystr \<Rightarrow> pystr" where
  "json_trim s = rev (dropWhile json_space (rev (dropWhile json_space s)))"

section \<open>A sample world\<close>

text \<open>
  Concrete collaborators on which the handlers can be run: a one-page statement, an
  interpreter that answers with a fenced JSON object, and a parser that knows two
  JSON texts (up to surrounding white space) and rejects every other text with an
  error that tells, as the errors of \<open>json.loads\<close> do, where in its input it stopped.
\<close>

fun digits :: "nat \<Rightarrow> pystr" where
  "digits n = (if n < 10 then [48 + n] else digits (n div 10) @ [48 + n mod 10])"

declare digits.simps [simp del]

definition quoted :: "string \<Rightarrow> pystr" where
  "quoted s = QUOTE # cp s @ [QUOTE]"

definition sample_json :: pystr where
  "sample_json = cp ''{'' @ quoted ''account_number'' @ cp '': '' @ quoted ''12345678''
     @ cp '', '' @ quoted ''sort_code'' @ cp '': '' @ quoted ''11-22-33'' @ cp ''}''"

definition sample_data :: pyval where
  "sample_data = PDict [(cp ''account_number'', PStr (cp ''12345678'')),
                        (cp ''sort_code'', PStr (cp ''11-22-33''))]"

definition null_json :: pystr where
  "null_json = cp ''{'' @ quoted ''account_number'' @ cp '': null, ''
     @ quoted ''sort_code'' @ cp '': null}''"

definition null_data :: pyval where
  "null_data = PDict [(cp ''account_number'', PNone), (cp ''sort_code'', PNone)]"

definition sample_loads :: "pystr \<Rightarrow> exn + pyval" where
  "sample_loads s =
     (if json_trim s = sample_json then Inr sample_data
      else if json_trim s = null_json then Inr null_data
      else Inl (JSONDecodeError
             (cp ''Expecting value: char '' @ digits (length (takeWhile json_space s)))))"

definition sample_env :: env where
  "sample_env =
     \<lparr>secure_filename = (\<lambda>n. n),
      save_error = (\<lambda>p. None),
      pdf_pages = (\<lambda>p. Inr [Some (cp ''Sort code 11-22-33''), None]),
      generate_content = (\<lambda>p. Inr (fenced sample_json)),
      json_loads = sample_loads,
      remove_error = (\<lambda>p. None)\<rparr>"

text \<open>The same, with an interpreter that answers in prose.\<close>

definition prose_env :: env where
  "prose_env = sample_env\<lparr>generate_content := (\<lambda>p. Inr (cp ''Sorry, no data''))\<rparr>"

text \<open>The same, with an interpreter that found no account number and no sort code.\<close>

definition null_env :: env where
  "null_env = sample_env\<lparr>generate_content := (\<lambda>p. Inr null_json)\<rparr>"

text \<open>The same, with a file system that refuses to remove files.\<close>

definition stuck_env :: env where
  "stuck_env = sample_env\<lparr>remove_error := (\<lambda>p. Some (OSError (cp ''Permission denied'')))\<rparr>"

text \<open>The same, with a statement whose pages hold no text.\<close>

definition blank_env :: env where
  "blank_env = sample_env\<lparr>pdf_pages := (\<lambda>p. Inr [None, Some (cp '' '')])\<rparr>"

text \<open>A statement without text on a file system that refuses to remove files.\<close>

definition blank_stuck_env :: env where
  "blank_stuck_env = blank_env\<lparr>remove_error := (\<lambda>p. Some (OSError (cp ''Permission denied'')))\<rparr>"

definition sample_world :: world where
  "sample_world = \<lparr>files = {}, prompts = []\<rparr>"

text \<open>Three requests: a small PDF, a small text file, and a text file of 17 MiB.\<close>

definition sample_request :: request where
  "sample_request = \<lparr>content_length = 2048, file_part = Some (cp ''a.pdf'')\<rparr>"

definition notes_request :: request where
  "notes_request = \<lparr>content_length = 2048, file_part = Some (cp ''notes.txt'')\<rparr>"

definition oversize_request :: request where
  "oversize_request =
     \<lparr>content_length = 17 * 1024 * 1024, file_part = Some (cp ''notes.txt'')\<rparr>"

definition sample_text :: pystr where
  "sample_text = cp ''Sort code 11-22-33'' @ [NEWLINE]"

section \<open>Matching\<close>

lemma fullmatch_rep:
  "fullmatch ((a, n) # p) s =
     (n \<le> length s \<and> list_all (atom_matches a) (take n s) \<and> fullmatch p (drop n s))"
proof (induction n arbitrary: s)
  case 0
  show ?case by simp
next
  case (Suc n)
  show ?case
  proof (cases s)
    case Nil
    then show ?thesis by simp
  next
    case (Cons c cs)
    then show ?thesis using Suc.IH [of cs] by auto
  qed
qed

lemma fullmatch_nil: "fullmatch [] s = (s = [])"
  by simp

lemma unicode_decimal_ascii: "c < 128 \<Longrightarrow> unicode_decimal c = ascii_digit c"
  by (auto simp add: unicode_decimal_def ascii_digit_def decimal_ranges_def in_range_def)

lemma account_match:
  "fullmatch ACCOUNT_RE s = (length s = 8 \<and> list_all unicode_decimal s)"
proof -
  have "list_all (atom_matches Digit) = list_all unicode_decimal"
    by (simp add: fun_eq_iff list_all_iff)
  then show ?thesis
    unfolding ACCOUNT_RE_def fullmatch_rep fullmatch_nil by auto
qed

lemma sort_code_match:
  "fullmatch SORT_CODE_RE s =
     (length s = 8 \<and> list_all unicode_decimal [s ! 0, s ! 1, s ! 3, s ! 4, s ! 6, s ! 7]
       \<and> s ! 2 = HYPHEN \<and> s ! 5 = HYPHEN)"
proof (cases "length s = 8")
  case False
  then show ?thesis
    unfolding SORT_CODE_RE_def fullmatch_rep fullmatch_nil by auto
next
  case True
  then obtain a b c d e f g h where s: "s = [a, b, c, d, e, f, g, h]"
    by (auto simp add: length_Suc_conv eval_nat_numeral)
  show ?thesis
    unfolding SORT_CODE_RE_def fullmatch_rep fullmatch_nil s
    by (auto simp add: eval_nat_numeral)
qed

section \<open>Splitting at the last dot\<close>

lemma rscan_found:
  "i \<le> length s \<Longrightarrow> sep \<in> set (take i s) \<Longrightarrow>
     \<exists>k. rscan sep s i = Some k \<and> k < i \<and> s ! k = sep \<and> sep \<notin> set (drop (Suc k) (take i s))"
proof (induction i)
  case 0
  then show ?case by simp
next
  case (Suc i)
  show ?case
  proof (cases "s ! i = sep")
    case True
    then show ?thesis using Suc.prems by simp
  next
    case False
    have t: "take (Suc i) s = take i s @ [s ! i]"
      using Suc.prems by (simp add: take_Suc_conv_app_nth)
    with False Suc.prems have "sep \<in> set (take i s)" by auto
    with Suc.IH Suc.prems obtain k where k: "rscan sep s i = Some k" "k < i" "s ! k = sep"
      "sep \<notin> set (drop (Suc k) (take i s))" by auto
    have "drop (Suc k) (take (Suc i) s) = drop (Suc k) (take i s) @ [s ! i]"
      using k(2) Suc.prems by (simp add: t)
    with k False show ?thesis by auto
  qed
qed

lemma after_last_append:
  "sep \<notin> set ys \<Longrightarrow> after_last sep (xs @ sep # ys) = ys"
proof -
  assume n: "sep \<notin> set ys"
  then have "takeWhile (\<lambda>c. c \<noteq> sep) (rev ys) = rev ys"
    by (auto simp add: takeWhile_eq_all_conv)
  moreover have "takeWhile (\<lambda>c. c \<noteq> sep) (rev (xs @ sep # ys))
      = takeWhile (\<lambda>c. c \<noteq> sep) (rev ys)"
    by (simp add: takeWhile_tail)
  ultimately show ?thesis
    by (simp only: after_last_def rev_rev_ident)
qed

lemma rsplit1_found:
  assumes "sep \<in> set s"
  shows "\<exists>a. rsplit1 sep s = [a, after_last sep s] \<and> s = a @ sep # after_last sep s
             \<and> sep \<notin> set (after_last sep s)"
proof -
  from rscan_found [of "length s" s sep] assms
  obtain k where k: "rscan sep s (length s) = Some k" "k < length s" "s ! k = sep"
    "sep \<notin> set (drop (Suc k) s)" by auto
  have s: "s = take k s @ sep # drop (Suc k) s"
    using id_take_nth_drop [OF k(2)] k(3) by simp
  have "after_last sep (take k s @ sep # drop (Suc k) s) = drop (Suc k) s"
    by (rule after_last_append [OF k(4)])
  then have "after_last sep s = drop (Suc k) s"
    using s by simp
  with k(1) k(4) s show ?thesis by (simp add: rsplit1_def)
qed

lemma allowed_file_after_last:
  "allowed_file f = (DOT \<in> set f \<and> lower (after_last DOT f) = cp ''pdf'')"
proof (cases "DOT \<in> set f")
  case False
  then show ?thesis by (simp add: allowed_file_def)
next
  case True
  from rsplit1_found [OF True] obtain a where "rsplit1 DOT f = [a, after_last DOT f]" by blast
  with True show ?thesis by (simp add: allowed_file_def ALLOWED_EXTENSIONS_def)
qed

lemma lower_pdf:
  "lower e = cp ''pdf'' \<Longrightarrow> length e = 3 \<and> DOT \<notin> set e"
  by (auto simp add: lower_def cp_def lower_cp_def DOT_def split: if_splits)

lemma lower_dot_pdf:
  "lower e = cp ''.pdf'' \<Longrightarrow> \<exists>x y z. e = [DOT, x, y, z] \<and> DOT \<notin> set [x, y, z]"
  by (auto simp add: lower_def cp_def lower_cp_def DOT_def split: if_splits)

lemma lower_append: "lower (xs @ ys) = lower xs @ lower ys"
  by (simp add: lower_def)

lemma allowed_file_extension: "allowed_file f = has_pdf_extension f"
proof
  assume "allowed_file f"
  then have d: "DOT \<in> set f" and l: "lower (after_last DOT f) = cp ''pdf''"
    by (simp_all add: allowed_file_after_last)
  from rsplit1_found [OF d] obtain a where f: "f = a @ DOT # after_last DOT f" by blast
  from lower_pdf [OF l] have n: "length (after_last DOT f) = 3" by simp
  have "length f = length a + 4"
    using n by (subst f) simp
  moreover from this have "drop (length f - 4) f = DOT # after_last DOT f"
    by (subst (2) f) simp
  ultimately show "has_pdf_extension f"
    using l by (simp add: has_pdf_extension_def lower_def cp_def lower_cp_def DOT_def)
next
  assume h: "has_pdf_extension f"
  then have len: "4 \<le> length f" and l: "lower (drop (length f - 4) f) = cp ''.pdf''"
    by (simp_all add: has_pdf_extension_def)
  from lower_dot_pdf [OF l] obtain x y z where
    e: "drop (length f - 4) f = [DOT, x, y, z]" and n: "DOT \<notin> set [x, y, z]" by blast
  have f: "f = take (length f - 4) f @ DOT # [x, y, z]"
    using e append_take_drop_id [of "length f - 4" f] by simp
  have al: "after_last DOT f = [x, y, z]"
    using after_last_append [OF n, of "take (length f - 4) f"] f by simp
  have "DOT \<in> set f" by (subst f) simp
  moreover have "lower [x, y, z] = cp ''pdf''"
    using l e by (simp add: lower_def cp_def)
  ultimately show "allowed_file f"
    by (simp add: allowed_file_after_last al)
qed

section \<open>Replacing and trimming\<close>

lemma take_eq_hd_mem:
  assumes "old \<noteq> []" "take (length old) (c # s) = old"
  shows "c \<in> set old"
proof -
  from assms(1) obtain x xs where o: "old = x # xs" by (cases old) auto
  with assms(2) have "x = c" by simp
  with o show ?thesis by simp
qed

lemma take_append_sep:
  assumes "c \<notin> set old"
  shows "(take (length old) (xs @ c # ys) = old) = (take (length old) xs = old)"
proof (cases "length old \<le> length xs")
  case True
  then show ?thesis by simp
next
  case False
  then have l: "length xs < length old" by simp
  have "take (length old) xs \<noteq> old"
  proof
    assume "take (length old) xs = old"
    then have "length (take (length old) xs) = length old" by simp
    with l show False by simp
  qed
  moreover have "take (length old) (xs @ c # ys) \<noteq> old"
  proof
    assume e: "take (length old) (xs @ c # ys) = old"
    have "c \<in> set (take (length old) (xs @ c # ys))"
      using l by (simp add: take_Cons')
    with e assms show False by simp
  qed
  ultimately show ?thesis by simp
qed

lemma replace_sep:
  assumes "old \<noteq> []" "c \<notin> set old"
  shows "replace old [] (xs @ c # ys) = replace old [] xs @ c # replace old [] ys"
proof (induction xs rule: length_induct)
  case (1 xs)
  show ?case
  proof (cases xs)
    case Nil
    have "take (length old) (c # ys) \<noteq> old"
      using take_eq_hd_mem [OF assms(1)] assms(2) by blast
    with Nil assms(1) show ?thesis by simp
  next
    case (Cons x xs')
    show ?thesis
    proof (cases "take (length old) xs = old")
      case True
      then have le: "length old \<le> length xs"
        by (metis length_take min.cobounded2 min.commute)
      have t: "take (length old) (xs @ c # ys) = old"
        using True by (simp only: take_append_sep [OF assms(2)])
      have d: "drop (length old) (xs @ c # ys) = drop (length old) xs @ c # ys"
        using le by simp
      have "length (drop (length old) xs) < length xs"
        using assms(1) Cons by simp
      with 1 have "replace old [] (drop (length old) xs @ c # ys)
          = replace old [] (drop (length old) xs) @ c # replace old [] ys" by blast
      with t d True assms(1) Cons show ?thesis by simp
    next
      case False
      then have t: "take (length old) (xs @ c # ys) \<noteq> old"
        by (simp only: take_append_sep [OF assms(2)] not_False_eq_True)
      have "replace old [] (xs' @ c # ys) = replace old [] xs' @ c # replace old [] ys"
        using 1 Cons by simp
      with t False assms(1) Cons show ?thesis by simp
    qed
  qed
qed

lemma replace_free:
  assumes "old \<noteq> []"
  shows "set w \<inter> set old = {} \<Longrightarrow> replace old [] w = w"
proof (induction w)
  case Nil
  show ?case using assms by simp
next
  case (Cons c w)
  have "take (length old) (c # w) \<noteq> old"
    using take_eq_hd_mem [OF assms] Cons.prems by auto
  with Cons assms show ?case by simp
qed

lemma replace_pad:
  assumes "old \<noteq> []" "set a \<inter> set old = {}" "set b \<inter> set old = {}"
  shows "replace old [] (a @ s @ b) = a @ replace old [] s @ b"
proof -
  have r: "replace old [] (s @ b) = replace old [] s @ b"
  proof (cases b)
    case Nil
    then show ?thesis by simp
  next
    case (Cons c b')
    with assms(3) have "c \<notin> set old" "set b' \<inter> set old = {}" by auto
    then show ?thesis
      using Cons replace_sep [OF assms(1), of c s b'] replace_free [OF assms(1), of b'] by simp
  qed
  from assms(2) show ?thesis
  proof (induction a)
    case Nil
    show ?case using r by simp
  next
    case (Cons c a)
    then have c: "c \<notin> set old" and a: "set a \<inter> set old = {}" by auto
    have "replace old [] ([] @ c # (a @ s @ b)) = replace old [] [] @ c # replace old [] (a @ s @ b)"
      by (rule replace_sep [OF assms(1) c])
    with Cons.IH [OF a] assms(1) show ?case by simp
  qed
qed

lemma trim_split:
  "s = takeWhile P s @ rev (dropWhile P (rev (dropWhile P s))) @ rev (takeWhile P (rev (dropWhile P s)))"
proof -
  have "rev (dropWhile P s) = takeWhile P (rev (dropWhile P s)) @ dropWhile P (rev (dropWhile P s))"
    by simp
  then have "dropWhile P s = rev (dropWhile P (rev (dropWhile P s))) @ rev (takeWhile P (rev (dropWhile P s)))"
    by (metis rev_append rev_rev_ident) 
  then show ?thesis
    by (metis takeWhile_dropWhile_id)
qed

lemma trim_pad:
  assumes "\<forall>x\<in>set a. P x" "\<forall>x\<in>set b. P x"
  shows "rev (dropWhile P (rev (dropWhile P (a @ s @ b)))) = rev (dropWhile P (rev (dropWhile P s)))"
proof -
  have 1: "dropWhile P (a @ s @ b) = dropWhile P (s @ b)"
    by (rule dropWhile_append2) (use assms(1) in auto)
  show ?thesis
  proof (cases "\<forall>x\<in>set s. P x")
    case True
    then have "dropWhile P (a @ s @ b) = []" and "dropWhile P s = []"
      using assms by (simp_all add: dropWhile_eq_Nil_conv)
    then show ?thesis by (simp only:)
  next
    case False
    then obtain x where "x \<in> set s" "\<not> P x" by blast
    then have "dropWhile P (s @ b) = dropWhile P s @ b"
      by (simp add: dropWhile_append1)
    moreover have "dropWhile P (rev b @ rev (dropWhile P s)) = dropWhile P (rev (dropWhile P s))"
      by (rule dropWhile_append2) (use assms(2) in auto)
    ultimately show ?thesis using 1 by simp
  qed
qed

lemma strip_fenced: "strip (fenced j) = fenced j"
  by (simp add: strip_def fenced_def FENCE_JSON_def FENCE_def BACKTICK_def py_space_def)

lemma clean_fenced:
  "clean_output (fenced j) = NEWLINE # replace FENCE [] (replace FENCE_JSON [] j) @ [NEWLINE]"
proof -
  have n1: "NEWLINE \<notin> set FENCE_JSON" and n2: "NEWLINE \<notin> set FENCE"
    and e1: "FENCE_JSON \<noteq> []" and e2: "FENCE \<noteq> []"
    by (simp_all add: FENCE_JSON_def FENCE_def BACKTICK_def NEWLINE_def cp_def)
  have t: "take (length FENCE_JSON) (fenced j) = FENCE_JSON"
    and d: "drop (length FENCE_JSON) (fenced j) = [] @ NEWLINE # (j @ NEWLINE # FENCE)"
    by (simp_all add: fenced_def)
  have f: "replace FENCE_JSON [] FENCE = FENCE"
    by (simp add: FENCE_JSON_def FENCE_def cp_def)
  have "replace FENCE_JSON [] (fenced j) = replace FENCE_JSON [] ([] @ NEWLINE # (j @ NEWLINE # FENCE))"
  proof -
    obtain c s where cs: "fenced j = c # s" by (cases "fenced j") (auto simp add: fenced_def FENCE_JSON_def FENCE_def)
    show ?thesis using t d e1 unfolding cs by simp
  qed
  also have "\<dots> = NEWLINE # replace FENCE_JSON [] (j @ NEWLINE # FENCE)"
    using replace_sep [OF e1 n1, of "[]" "j @ NEWLINE # FENCE"] e1 by simp
  also have "\<dots> = NEWLINE # replace FENCE_JSON [] j @ NEWLINE # FENCE"
    using replace_sep [OF e1 n1, of j FENCE] f by simp
  finally have 1: "replace FENCE_JSON [] (fenced j) = [] @ NEWLINE # (replace FENCE_JSON [] j @ NEWLINE # FENCE)"
    by simp
  have g: "replace FENCE [] FENCE = []"
    by (simp add: FENCE_def)
  have "replace FENCE [] (replace FENCE_JSON [] (fenced j))
      = NEWLINE # replace FENCE [] (replace FENCE_JSON [] j @ NEWLINE # FENCE)"
    unfolding 1 using replace_sep [OF e2 n2, of "[]"] e2 by simp
  also have "\<dots> = NEWLINE # replace FENCE [] (replace FENCE_JSON [] j) @ [NEWLINE]"
    using replace_sep [OF e2 n2, of "replace FENCE_JSON [] j" FENCE] g by simp
  finally show ?thesis
    by (simp add: clean_output_def strip_fenced)
qed

lemma json_space_free:
  assumes "\<forall>x\<in>set a. json_space x"
  shows "set a \<inter> set FENCE_JSON = {}" "set a \<inter> set FENCE = {}"
  using assms
  by (auto simp add: json_space_def FENCE_JSON_def FENCE_def BACKTICK_def cp_def)

lemma json_trim_clean_fenced:
  assumes "strip j = json_trim j"
  shows "json_trim (clean_output (fenced j)) = json_trim (clean_output j)"
proof -
  define a where "a = takeWhile json_space j"
  define b where "b = rev (takeWhile json_space (rev (dropWhile json_space j)))"
  define R where "R = (\<lambda>s. replace FENCE [] (replace FENCE_JSON [] s))"
  have j: "j = a @ strip j @ b"
    unfolding a_def b_def assms json_trim_def by (rule trim_split)
  have a: "\<forall>x\<in>set a. json_space x" unfolding a_def by (auto dest: set_takeWhileD)
  have b: "\<forall>x\<in>set b. json_space x" unfolding b_def by (auto dest: set_takeWhileD)
  have e1: "FENCE_JSON \<noteq> []" and e2: "FENCE \<noteq> []"
    by (simp_all add: FENCE_JSON_def FENCE_def)
  have "R (a @ strip j @ b) = a @ R (strip j) @ b"
    unfolding R_def
    using replace_pad [OF e1 json_space_free(1) [OF a] json_space_free(1) [OF b]]
      replace_pad [OF e2 json_space_free(2) [OF a] json_space_free(2) [OF b]] by simp
  with j have Rj: "R j = a @ R (strip j) @ b" by simp
  have n: "json_space NEWLINE" by (simp add: json_space_def NEWLINE_def)
  have "clean_output (fenced j) = (NEWLINE # a) @ R (strip j) @ (b @ [NEWLINE])"
    using clean_fenced [of j] Rj by (simp add: R_def)
  moreover have "json_trim ((NEWLINE # a) @ R (strip j) @ (b @ [NEWLINE])) = json_trim (R (strip j))"
    unfolding json_trim_def using a b n by (intro trim_pad) auto
  ultimately show ?thesis
    by (simp add: clean_output_def R_def)
qed

lemma sort_code_shape_length: "sort_code_shape digit s \<Longrightarrow> length s = 8"
  by (induction digit s rule: sort_code_shape.induct) simp_all

lemma sort_code_shape_match:
  "fullmatch SORT_CODE_RE s = sort_code_shape unicode_decimal s"
proof (cases "length s = 8")
  case False
  then show ?thesis
    using sort_code_shape_length [of unicode_decimal s] by (auto simp add: sort_code_match)
next
  case True
  then obtain a b c d e f g h where s: "s = [a, b, c, d, e, f, g, h]"
    by (auto simp add: length_Suc_conv eval_nat_numeral)
  show ?thesis
    unfolding sort_code_match s by auto
qed

lemma ascii_digits: "is_ascii s \<Longrightarrow> list_all unicode_decimal s = list_all ascii_digit s"
  unfolding is_ascii_def by (induction s) (simp_all add: unicode_decimal_ascii)

lemma ascii_sort_code:
  "is_ascii s \<Longrightarrow> sort_code_shape unicode_decimal s = sort_code_shape ascii_digit s"
proof (cases "length s = 8")
  case False
  then show ?thesis
    using sort_code_shape_length [of unicode_decimal s] sort_code_shape_length [of ascii_digit s]
    by auto
next
  case True
  assume a: "is_ascii s"
  from True obtain a b c d e f g h where s: "s = [a, b, c, d, e, f, g, h]"
    by (auto simp add: length_Suc_conv eval_nat_numeral)
  show ?thesis
    using a unfolding s is_ascii_def by (simp add: unicode_decimal_ascii)
qed

section \<open>The validators\<close>

text \<open>
  Claim C1, as amended. \<open>validate_account\<close> answers true on a string exactly when the
  string has eight characters and each is a decimal digit of Unicode, the class that
  \<open>\d\<close> matches in a \<open>str\<close> pattern. On a string of ASCII characters that is: exactly
  eight of the digits \<open>0\<close> to \<open>9\<close>; a string of another length, or with a character
  that is no decimal digit, is answered with false.
\<close>

theorem validate_account_decimal:
  "validate_account (PStr s) = Inr (eight_digits unicode_decimal s)
   \<and> (is_ascii s \<longrightarrow> validate_account (PStr s) = Inr (eight_digits ascii_digit s))"
  by (simp add: validate_account_def account_match eight_digits_def ascii_digits)

theorem validate_account_decimal_witness:
  "is_ascii (cp ''12345678'') \<and> validate_account (PStr (cp ''12345678'')) = Inr True"
proof -
  have h: "is_ascii (cp ''12345678'')"
    by (simp add: is_ascii_def cp_def)
  have "validate_account (PStr (cp ''12345678'')) = Inr (eight_digits ascii_digit (cp ''12345678''))"
    using validate_account_decimal [of "cp ''12345678''"] h by blast
  then show ?thesis
    using h by (simp add: cp_def ascii_digit_def eight_digits_def)
qed

text \<open>
  The claim as the specification states it, with ASCII digits only, fails on eight
  Arabic-Indic digits zero (U+0660): the validator accepts them.
\<close>

theorem validate_account_ascii_counterexample:
  "validate_account (PStr (replicate 8 1632)) = Inr True
   \<and> \<not> eight_digits ascii_digit (replicate 8 1632)"
  by (simp add: validate_account_def account_match unicode_decimal_def decimal_ranges_def
      in_range_def ascii_digit_def eight_digits_def list_all_iff)

text \<open>
  Claim C2, as amended. \<open>validate_sort_code\<close> answers true on a string exactly when the
  string has the shape \<open>DD-DD-DD\<close> with \<open>D\<close> a decimal digit of Unicode; on a string of
  ASCII characters, with \<open>D\<close> one of \<open>0\<close> to \<open>9\<close>.
\<close>

theorem validate_sort_code_decimal:
  "validate_sort_code (PStr s) = Inr (sort_code_shape unicode_decimal s)
   \<and> (is_ascii s \<longrightarrow> validate_sort_code (PStr s) = Inr (sort_code_shape ascii_digit s))"
  by (simp add: validate_sort_code_def sort_code_shape_match ascii_sort_code)

theorem validate_sort_code_decimal_witness:
  "is_ascii (cp ''12-34-56'') \<and> validate_sort_code (PStr (cp ''12-34-56'')) = Inr True
   \<and> is_ascii (cp ''123-4-56'') \<and> validate_sort_code (PStr (cp ''123-4-56'')) = Inr False"
proof -
  have h: "is_ascii (cp ''12-34-56'')" and k: "is_ascii (cp ''123-4-56'')"
    by (simp_all add: is_ascii_def cp_def)
  have "validate_sort_code (PStr (cp ''12-34-56'')) = Inr (sort_code_shape ascii_digit (cp ''12-34-56''))"
    using validate_sort_code_decimal [of "cp ''12-34-56''"] h by blast
  moreover have "validate_sort_code (PStr (cp ''123-4-56''))
      = Inr (sort_code_shape ascii_digit (cp ''123-4-56''))"
    using validate_sort_code_decimal [of "cp ''123-4-56''"] k by blast
  ultimately show ?thesis
    using h k by (simp add: cp_def ascii_digit_def HYPHEN_def)
qed

text \<open>
  The claim as the specification states it fails on a sort code written with
  Arabic-Indic digits: the validator accepts it.
\<close>

theorem validate_sort_code_ascii_counterexample:
  "validate_sort_code (PStr [1632, 1632, 45, 1632, 1632, 45, 1632, 1632]) = Inr True
   \<and> \<not> sort_code_shape ascii_digit [1632, 1632, 45, 1632, 1632, 45, 1632, 1632]"
  by (simp add: validate_sort_code_def sort_code_shape_match unicode_decimal_def
      decimal_ranges_def in_range_def ascii_digit_def HYPHEN_def)

section \<open>File names\<close>

text \<open>
  Claim C10. \<open>allowed_file\<close> accepts a file name exactly when the name holds a dot and
  the part after its last dot, in lower case, is \<open>pdf\<close>. The bare name \<open>pdf\<close> is
  rejected; \<open>a.PDF\<close> and \<open>.pdf\<close> are accepted.
\<close>

theorem allowed_file_spec:
  "allowed_file f = (DOT \<in> set f \<and> lower (after_last DOT f) = cp ''pdf'')
   \<and> \<not> allowed_file (cp ''pdf'')
   \<and> allowed_file (cp ''a.PDF'')
   \<and> allowed_file (cp ''.pdf'')"
proof -
  have "\<not> allowed_file (cp ''pdf'')"
    by (simp add: allowed_file_def cp_def DOT_def)
  moreover have "allowed_file (cp ''a.PDF'')"
    by (simp add: allowed_file_extension has_pdf_extension_def cp_def lower_def lower_cp_def)
  moreover have "allowed_file (cp ''.pdf'')"
    by (simp add: allowed_file_extension has_pdf_extension_def cp_def lower_def lower_cp_def)
  ultimately show ?thesis
    using allowed_file_after_last [of f] by simp
qed

section \<open>The sample answer\<close>

lemma trim_idem:
  "rev (dropWhile P (rev (dropWhile P (rev (dropWhile P (rev (dropWhile P s)))))))
     = rev (dropWhile P (rev (dropWhile P s)))"
proof -
  define u where "u = dropWhile P s"
  define t where "t = rev (dropWhile P (rev u))"
  have u: "u = t @ rev (takeWhile P (rev u))"
    unfolding t_def by (metis rev_append rev_rev_ident takeWhile_dropWhile_id)
  have "dropWhile P t = t"
  proof (cases "t = []")
    case True
    then show ?thesis by simp
  next
    case False
    then have "hd t = hd u" using u by (metis hd_append2)
    moreover have "u \<noteq> []" using False u by auto
    then have "\<not> P (hd u)" unfolding u_def by (rule hd_dropWhile)
    ultimately show ?thesis using False by (cases t) auto
  qed
  moreover have "dropWhile P (rev t) = rev t"
    unfolding t_def by simp
  ultimately show ?thesis
    unfolding t_def u_def by simp
qed

lemma json_trim_idem: "json_trim (json_trim s) = json_trim s"
  unfolding json_trim_def by (rule trim_idem)

lemma replace_no_head:
  assumes "old \<noteq> []" "hd old \<notin> set s"
  shows "replace old [] s = s"
  using assms(2)
proof (induction s)
  case Nil
  show ?case using assms(1) by simp
next
  case (Cons c s)
  have "take (length old) (c # s) \<noteq> old"
  proof
    assume "take (length old) (c # s) = old"
    then have "hd old = c" using assms(1) by (cases old) auto
    with Cons.prems show False by simp
  qed
  with Cons assms(1) show ?case by simp
qed

lemma clean_no_backtick:
  assumes "BACKTICK \<notin> set (strip s)"
  shows "clean_output s = strip s"
proof -
  have "replace FENCE_JSON [] (strip s) = strip s"
    by (rule replace_no_head) (use assms in \<open>simp_all add: FENCE_JSON_def FENCE_def\<close>)
  moreover have "replace FENCE [] (strip s) = strip s"
    by (rule replace_no_head) (use assms in \<open>simp_all add: FENCE_def\<close>)
  ultimately show ?thesis by (simp add: clean_output_def)
qed

lemma sample_json_chars:
  "sample_json = [123, 34, 97, 99, 99, 111, 117, 110, 116, 95, 110, 117, 109, 98, 101, 114, 34,
     58, 32, 34, 49, 50, 51, 52, 53, 54, 55, 56, 34, 44, 32, 34, 115, 111, 114, 116, 95, 99, 111,
     100, 101, 34, 58, 32, 34, 49, 49, 45, 50, 50, 45, 51, 51, 34, 125]"
  by (simp add: sample_json_def quoted_def cp_def QUOTE_def)

lemma strip_sample_json: "strip sample_json = sample_json"
  unfolding sample_json_chars by (simp add: strip_def py_space_def)

lemma json_trim_sample_json: "json_trim sample_json = sample_json"
  unfolding sample_json_chars by (simp add: json_trim_def json_space_def)

lemma clean_sample_json: "clean_output sample_json = sample_json"
proof -
  have "BACKTICK \<notin> set (strip sample_json)"
    unfolding strip_sample_json unfolding sample_json_chars by (simp add: BACKTICK_def)
  then show ?thesis using clean_no_backtick strip_sample_json by simp
qed

section \<open>The fenced answer\<close>

text \<open>
  Claim C6. Let \<open>j\<close> be a JSON text: white space of JSON apart, it neither begins nor
  ends with white space, as every JSON text does. Then cleaning and parsing the answer
  that wraps \<open>j\<close> in a markdown code fence yields a value exactly when cleaning and
  parsing \<open>j\<close> itself does, and it is the same value. The parser is the collaborator
  \<open>json.loads\<close>; what is assumed of it is that the white space of JSON around a text
  changes neither whether the text parses nor the value parsed. Nothing is assumed of
  its errors, whose text tells the position in the input.
\<close>

theorem fenced_parsed_as_unfenced:
  assumes "\<forall>s v. (json_loads e (json_trim s) = Inr v) = (json_loads e s = Inr v)"
    and "strip j = json_trim j"
  shows "(clean_and_parse e (fenced j) = Inr v) = (clean_and_parse e j = Inr v)"
proof -
  have "(json_loads e (clean_output (fenced j)) = Inr v)
      = (json_loads e (json_trim (clean_output (fenced j))) = Inr v)"
    using assms(1) by simp
  also have "\<dots> = (json_loads e (json_trim (clean_output j)) = Inr v)"
    using json_trim_clean_fenced [OF assms(2)] by simp
  also have "\<dots> = (json_loads e (clean_output j) = Inr v)"
    using assms(1) by simp
  finally show ?thesis by (simp add: clean_and_parse_def)
qed

theorem fenced_parsed_as_unfenced_witness:
  "strip sample_json = json_trim sample_json
   \<and> clean_and_parse sample_env (fenced sample_json) = Inr sample_data
   \<and> clean_and_parse sample_env sample_json = Inr sample_data"
proof -
  have h1: "\<forall>s v. (json_loads sample_env (json_trim s) = Inr v) = (json_loads sample_env s = Inr v)"
    by (simp add: sample_env_def sample_loads_def json_trim_idem)
  have h2: "strip sample_json = json_trim sample_json"
    by (simp add: strip_sample_json json_trim_sample_json)
  have u: "clean_and_parse sample_env sample_json = Inr sample_data"
    by (simp add: clean_and_parse_def clean_sample_json sample_env_def sample_loads_def
        json_trim_sample_json)
  have "(clean_and_parse sample_env (fenced sample_json) = Inr sample_data)
      = (clean_and_parse sample_env sample_json = Inr sample_data)"
    using h1 h2 by (rule fenced_parsed_as_unfenced)
  with u h2 show ?thesis by simp
qed

section \<open>Paths through the upload handler\<close>

lemma os_remove_present:
  "p \<in> files w \<Longrightarrow> remove_error e p = None \<Longrightarrow> os_remove e p w = Inr (w\<lparr>files := files w - {p}\<rparr>)"
  by (simp add: os_remove_def)

lemma os_remove_stuck:
  "p \<in> files w \<Longrightarrow> remove_error e p = Some x \<Longrightarrow> os_remove e p w = Inl x"
  by (simp add: os_remove_def)



lemma try_stored:
  assumes "request_files req = Inr (Some f)"
    "f \<noteq> []" "allowed_file f" "save_error e (os_path_join UPLOAD_FOLDER (secure_filename e f)) = None"
  shows "parse_statement_try e req w =
    (fst (process_stored e (os_path_join UPLOAD_FOLDER (secure_filename e f))
            (w\<lparr>files := insert (os_path_join UPLOAD_FOLDER (secure_filename e f)) (files w)\<rparr>)),
     snd (process_stored e (os_path_join UPLOAD_FOLDER (secure_filename e f))
            (w\<lparr>files := insert (os_path_join UPLOAD_FOLDER (secure_filename e f)) (files w)\<rparr>)),
     Some (os_path_join UPLOAD_FOLDER (secure_filename e f)))"
  using assms by (simp add: parse_statement_try_def file_save_def Let_def split: prod.splits)

lemma returned: "parse_statement_try e req w = (Inr r, w1, fp) \<Longrightarrow> parse_statement e req w = (Returned r, w1)"
  by (simp add: parse_statement_def)

lemma stored_blank:
  assumes "p \<in> files w" "extract_text_from_pdf e p = Inr t" "strip t = []" "remove_error e p = None"
  shows "process_stored e p w =
    (Inr (Response (error_body (cp ''Could not extract text from PDF'')) 400),
     w\<lparr>files := files w - {p}\<rparr>)"
  using assms by (simp add: process_stored_def os_remove_present)

lemma interpret_success:
  assumes "p \<in> files w" "generate_content e (prompt t) = Inr out"
    "clean_and_parse e out = Inr data" "validate_fields data = Inr (av, sv)"
    "remove_error e p = None"
  shows "interpret_and_respond e p t w =
    (Inr (Response (response_data data av sv t) 200),
     w\<lparr>prompts := prompt t # prompts w, files := files w - {p}\<rparr>)"
  using assms
  by (simp add: interpret_and_respond_def extract_bank_data_with_gemini_def os_remove_def)

lemma stored_success:
  assumes "p \<in> files w" "extract_text_from_pdf e p = Inr t" "strip t \<noteq> []"
    "generate_content e (prompt t) = Inr out"
    "clean_and_parse e out = Inr data" "validate_fields data = Inr (av, sv)"
    "remove_error e p = None"
  shows "process_stored e p w =
    (Inr (Response (response_data data av sv t) 200),
     w\<lparr>prompts := prompt t # prompts w, files := files w - {p}\<rparr>)"
  using assms interpret_success [of p w e t out data av sv]
  by (simp add: process_stored_def)

lemma interpret_200:
  assumes "interpret_and_respond e p t w = (Inr (Response b 200), w')"
  shows "\<exists>out data av sv. generate_content e (prompt t) = Inr out
     \<and> clean_and_parse e out = Inr data \<and> validate_fields data = Inr (av, sv)
     \<and> b = response_data data av sv t"
  using assms
  by (auto simp add: interpret_and_respond_def extract_bank_data_with_gemini_def
      split: sum.splits prod.splits)

lemma stored_200:
  assumes "process_stored e p w = (Inr (Response b 200), w')"
  shows "\<exists>t out data av sv. extract_text_from_pdf e p = Inr t
     \<and> generate_content e (prompt t) = Inr out
     \<and> clean_and_parse e out = Inr data \<and> validate_fields data = Inr (av, sv)
     \<and> b = response_data data av sv t"
  using assms interpret_200 [of e p _ w b w']
  by (auto simp add: process_stored_def split: sum.splits if_splits)

lemma try_200:
  assumes "parse_statement_try e req w = (Inr (Response b 200), w', l)"
  shows "\<exists>f. request_files req = Inr (Some f)
    \<and> (\<exists>w1. process_stored e (os_path_join UPLOAD_FOLDER (secure_filename e f)) w1
      = (Inr (Response b 200), w'))"
  using assms
  by (auto simp add: parse_statement_try_def Let_def split: option.splits if_splits sum.splits prod.splits)

lemma parse_200:
  assumes "parse_statement e req w = (Returned (Response b 200), w')"
  shows "\<exists>l. parse_statement_try e req w = (Inr (Response b 200), w', l)"
  using assms
  by (auto simp add: parse_statement_def split: prod.splits sum.splits if_splits option.splits)

lemma validate_fields_Inr:
  assumes "validate_fields data = Inr (av, sv)"
  shows "\<exists>kvs. data = PDict kvs
    \<and> validate_account (case map_of kvs (cp ''account_number'') of Some v \<Rightarrow> v | None \<Rightarrow> PStr []) = Inr av
    \<and> validate_sort_code (case map_of kvs (cp ''sort_code'') of Some v \<Rightarrow> v | None \<Rightarrow> PStr []) = Inr sv"
  using assms
  by (cases data) (auto simp add: validate_fields_def bind_exn_def split: sum.splits)

lemma validate_empty:
  "validate_account (PStr []) = Inr False" "validate_sort_code (PStr []) = Inr False"
  by (simp_all add: validate_account_def validate_sort_code_def account_match sort_code_shape_match)

lemma blank_stored:
  assumes "request_files req = Inr (Some f)" and "f \<noteq> []" and "allowed_file f"
    and "save_error e (os_path_join UPLOAD_FOLDER (secure_filename e f)) = None"
    and "extract_text_from_pdf e (os_path_join UPLOAD_FOLDER (secure_filename e f)) = Inr t"
    and "strip t = []"
    and "remove_error e (os_path_join UPLOAD_FOLDER (secure_filename e f)) = None"
  shows "parse_statement e req w =
      (Returned (Response (error_body (cp ''Could not extract text from PDF'')) 400),
       w\<lparr>files := files w - {os_path_join UPLOAD_FOLDER (secure_filename e f)}\<rparr>)"
proof -
  let ?p = "os_path_join UPLOAD_FOLDER (secure_filename e f)"
  let ?w1 = "w\<lparr>files := insert ?p (files w)\<rparr>"
  have m: "?p \<in> files ?w1" by simp
  have "process_stored e ?p ?w1 =
      (Inr (Response (error_body (cp ''Could not extract text from PDF'')) 400),
       ?w1\<lparr>files := files ?w1 - {?p}\<rparr>)"
    by (rule stored_blank [OF m assms(5) assms(6) assms(7)])
  moreover have "?w1\<lparr>files := files ?w1 - {?p}\<rparr> = w\<lparr>files := files w - {?p}\<rparr>"
    by simp
  ultimately have "parse_statement_try e req w =
      (Inr (Response (error_body (cp ''Could not extract text from PDF'')) 400),
       w\<lparr>files := files w - {?p}\<rparr>, Some ?p)"
    by (simp only: try_stored [OF assms(1) assms(2) assms(3) assms(4)] fst_conv snd_conv)
  then show ?thesis by (rule returned)
qed

lemma interpret_invalid:
  assumes "generate_content e (prompt t) = Inr out" "clean_and_parse e out = Inr data"
    "validate_fields data = Inl x"
  shows "interpret_and_respond e p t w = (Inl x, w\<lparr>prompts := prompt t # prompts w\<rparr>)"
  using assms by (simp add: interpret_and_respond_def extract_bank_data_with_gemini_def)

lemma interpret_unparsed:
  assumes "generate_content e (prompt t) = Inr out" "clean_and_parse e out = Inl x"
  shows "interpret_and_respond e p t w = (Inl x, w\<lparr>prompts := prompt t # prompts w\<rparr>)"
  using assms by (simp add: interpret_and_respond_def extract_bank_data_with_gemini_def)

lemma interpret_stuck:
  assumes "p \<in> files w" "generate_content e (prompt t) = Inr out"
    "clean_and_parse e out = Inr data" "validate_fields data = Inr (av, sv)"
    "remove_error e p = Some y"
  shows "interpret_and_respond e p t w = (Inl y, w\<lparr>prompts := prompt t # prompts w\<rparr>)"
  using assms
  by (simp add: interpret_and_respond_def extract_bank_data_with_gemini_def os_remove_def)

lemma stored_interpret:
  assumes "extract_text_from_pdf e p = Inr t" "strip t \<noteq> []"
  shows "process_stored e p w = interpret_and_respond e p t w"
  using assms by (simp add: process_stored_def)

lemma interpret_files:
  assumes "p \<in> files w" "remove_error e p = None"
  shows "case interpret_and_respond e p t w of
           (Inr r, w') \<Rightarrow> p \<notin> files w'
         | (Inl x, w') \<Rightarrow> p \<in> files w'"
  using assms
  by (simp add: interpret_and_respond_def extract_bank_data_with_gemini_def os_remove_def
      split: sum.splits prod.splits)

lemma stored_files:
  assumes "p \<in> files w" "remove_error e p = None"
  shows "case process_stored e p w of
           (Inr r, w') \<Rightarrow> p \<notin> files w'
         | (Inl x, w') \<Rightarrow> p \<in> files w'"
proof (cases "extract_text_from_pdf e p")
  case (Inl x)
  then show ?thesis using assms by (simp add: process_stored_def)
next
  case (Inr t)
  show ?thesis
  proof (cases "strip t = []")
    case True
    then show ?thesis using assms Inr by (simp add: process_stored_def os_remove_def)
  next
    case False
    then show ?thesis
      using interpret_files [OF assms, of t] Inr by (simp add: process_stored_def)
  qed
qed

lemma handled:
  assumes "parse_statement_try e req w = (Inl x, w1, Some p)" "\<not> is_JSONDecodeError x"
    "p \<in> files w1" "remove_error e p = None"
  shows "parse_statement e req w =
     (Returned (Response
        (error_details_body (cp ''An error occurred while processing the file'') x) 500),
      w1\<lparr>files := files w1 - {p}\<rparr>)"
  using assms by (simp add: parse_statement_def os_path_exists_def os_remove_def)

lemma handled_stuck:
  assumes "parse_statement_try e req w = (Inl x, w1, Some p)" "\<not> is_JSONDecodeError x"
    "p \<in> files w1" "remove_error e p = Some y"
  shows "parse_statement e req w = (Raised y, w1)"
  using assms by (simp add: parse_statement_def os_path_exists_def os_remove_def)

lemma unparsed:
  assumes "parse_statement_try e req w = (Inl x, w1, l)" "is_JSONDecodeError x"
  shows "parse_statement e req w =
     (Returned (Response
        (error_details_body (cp ''Failed to parse AI response as JSON'') x) 500), w1)"
  using assms by (simp add: parse_statement_def)


lemma blank_stuck_try:
  assumes "request_files req = Inr (Some f)" and "f \<noteq> []" and "allowed_file f"
    and "save_error e (os_path_join UPLOAD_FOLDER (secure_filename e f)) = None"
    and "extract_text_from_pdf e (os_path_join UPLOAD_FOLDER (secure_filename e f)) = Inr t"
    and "strip t = []"
    and "remove_error e (os_path_join UPLOAD_FOLDER (secure_filename e f)) = Some y"
  shows "parse_statement_try e req w =
      (Inl y, w\<lparr>files := insert (os_path_join UPLOAD_FOLDER (secure_filename e f)) (files w)\<rparr>,
       Some (os_path_join UPLOAD_FOLDER (secure_filename e f)))"
proof -
  let ?p = "os_path_join UPLOAD_FOLDER (secure_filename e f)"
  let ?w1 = "w\<lparr>files := insert ?p (files w)\<rparr>"
  have m: "?p \<in> files ?w1" by simp
  have "process_stored e ?p ?w1 = (Inl y, ?w1)"
    using assms(5) assms(6) os_remove_stuck [OF m assms(7)] by (simp add: process_stored_def)
  then show ?thesis
    by (simp only: try_stored [OF assms(1) assms(2) assms(3) assms(4)] fst_conv snd_conv)
qed

lemma success_path:
  assumes "request_files req = Inr (Some f)" and "f \<noteq> []" and "allowed_file f"
    and "save_error e (os_path_join UPLOAD_FOLDER (secure_filename e f)) = None"
    and "extract_text_from_pdf e (os_path_join UPLOAD_FOLDER (secure_filename e f)) = Inr t"
    and "strip t \<noteq> []"
    and "generate_content e (prompt t) = Inr out"
    and "clean_and_parse e out = Inr data" and "validate_fields data = Inr (av, sv)"
    and "remove_error e (os_path_join UPLOAD_FOLDER (secure_filename e f)) = None"
  shows "parse_statement e req w =
      (Returned (Response (response_data data av sv t) 200),
       w\<lparr>files := files w - {os_path_join UPLOAD_FOLDER (secure_filename e f)},
          prompts := prompt t # prompts w\<rparr>)"
proof -
  let ?p = "os_path_join UPLOAD_FOLDER (secure_filename e f)"
  let ?w1 = "w\<lparr>files := insert ?p (files w)\<rparr>"
  have m: "?p \<in> files ?w1" by simp
  have "process_stored e ?p ?w1 =
      (Inr (Response (response_data data av sv t) 200),
       ?w1\<lparr>prompts := prompt t # prompts ?w1, files := files ?w1 - {?p}\<rparr>)"
    by (rule stored_success [OF m assms(5) assms(6) assms(7) assms(8) assms(9) assms(10)])
  moreover have "?w1\<lparr>prompts := prompt t # prompts ?w1, files := files ?w1 - {?p}\<rparr>
      = w\<lparr>files := files w - {?p}, prompts := prompt t # prompts w\<rparr>"
    by simp
  ultimately have "parse_statement_try e req w =
      (Inr (Response (response_data data av sv t) 200),
       w\<lparr>files := files w - {?p}, prompts := prompt t # prompts w\<rparr>, Some ?p)"
    by (simp only: try_stored [OF assms(1) assms(2) assms(3) assms(4)] fst_conv snd_conv)
  then show ?thesis by (rule returned)
qed

lemma sample_file: "cp ''a.pdf'' \<noteq> []" "allowed_file (cp ''a.pdf'')"
  by (simp_all add: allowed_file_extension has_pdf_extension_def cp_def lower_def lower_cp_def)

lemma sample_reads:
  "request_files sample_request = Inr (Some (cp ''a.pdf''))"
  "request_files notes_request = Inr (Some (cp ''notes.txt''))"
  "request_files oversize_request = Inl (RequestEntityTooLarge (cp (''413 Request Entity Too Large: '' @
             ''The data value transmitted exceeds the capacity limit.'')))"
  by (simp_all add: request_files_def sample_request_def notes_request_def oversize_request_def
      MAX_CONTENT_LENGTH_def)

lemma join_uploads: "os_path_join UPLOAD_FOLDER (cp ''a.pdf'') = cp ''uploads/a.pdf''"
  by (simp add: os_path_join_def UPLOAD_FOLDER_def cp_def SLASH_def)

lemma sample_paths:
  "os_path_join UPLOAD_FOLDER (secure_filename sample_env (cp ''a.pdf'')) = cp ''uploads/a.pdf''"
  "os_path_join UPLOAD_FOLDER (secure_filename null_env (cp ''a.pdf'')) = cp ''uploads/a.pdf''"
  "os_path_join UPLOAD_FOLDER (secure_filename prose_env (cp ''a.pdf'')) = cp ''uploads/a.pdf''"
  "os_path_join UPLOAD_FOLDER (secure_filename stuck_env (cp ''a.pdf'')) = cp ''uploads/a.pdf''"
  "os_path_join UPLOAD_FOLDER (secure_filename blank_env (cp ''a.pdf'')) = cp ''uploads/a.pdf''"
  "os_path_join UPLOAD_FOLDER (secure_filename blank_stuck_env (cp ''a.pdf'')) = cp ''uploads/a.pdf''"
  by (simp_all add: sample_env_def null_env_def prose_env_def stuck_env_def blank_env_def blank_stuck_env_def
      join_uploads)

lemma sample_saves:
  "save_error sample_env p = None" "save_error null_env p = None" "save_error prose_env p = None"
  "save_error stuck_env p = None" "save_error blank_env p = None"
  "save_error blank_stuck_env p = None"
  by (simp_all add: sample_env_def null_env_def prose_env_def stuck_env_def blank_env_def blank_stuck_env_def)

lemma sample_removes:
  "remove_error sample_env p = None" "remove_error null_env p = None"
  "remove_error prose_env p = None" "remove_error blank_env p = None"
  "remove_error stuck_env p = Some (OSError (cp ''Permission denied''))"
  "remove_error blank_stuck_env p = Some (OSError (cp ''Permission denied''))"
  by (simp_all add: sample_env_def null_env_def prose_env_def stuck_env_def blank_env_def blank_stuck_env_def)

lemma sample_extracts:
  "extract_text_from_pdf sample_env p = Inr sample_text"
  "extract_text_from_pdf null_env p = Inr sample_text"
  "extract_text_from_pdf prose_env p = Inr sample_text"
  "extract_text_from_pdf stuck_env p = Inr sample_text"
  "extract_text_from_pdf blank_env p = Inr (cp '' '' @ [NEWLINE])"
  "extract_text_from_pdf blank_stuck_env p = Inr (cp '' '' @ [NEWLINE])"
  by (simp_all add: sample_env_def null_env_def prose_env_def stuck_env_def blank_env_def blank_stuck_env_def
      extract_text_from_pdf_def add_page_def sample_text_def cp_def)

lemma sample_strips: "strip sample_text \<noteq> []" "strip (cp '' '' @ [NEWLINE]) = []"
  by (simp_all add: sample_text_def strip_def cp_def NEWLINE_def py_space_def)

lemma sample_generates:
  "generate_content sample_env q = Inr (fenced sample_json)"
  "generate_content stuck_env q = Inr (fenced sample_json)"
  "generate_content null_env q = Inr null_json"
  "generate_content prose_env q = Inr (cp ''Sorry, no data'')"
  by (simp_all add: sample_env_def null_env_def prose_env_def stuck_env_def)

lemma sample_loads_trim: "(sample_loads (json_trim s) = Inr v) = (sample_loads s = Inr v)"
  by (simp add: sample_loads_def json_trim_idem)

lemma sample_json_loads:
  "json_loads sample_env = sample_loads" "json_loads null_env = sample_loads"
  "json_loads prose_env = sample_loads" "json_loads stuck_env = sample_loads"
  by (simp_all add: sample_env_def null_env_def prose_env_def stuck_env_def)

lemma sample_fenced_parse:
  "clean_and_parse sample_env (fenced sample_json) = Inr sample_data"
  "clean_and_parse stuck_env (fenced sample_json) = Inr sample_data"
proof -
  have h: "strip sample_json = json_trim sample_json"
    by (simp add: strip_sample_json json_trim_sample_json)
  have "sample_loads (json_trim (clean_output sample_json)) = Inr sample_data"
    by (simp add: clean_sample_json json_trim_sample_json sample_loads_def)
  then have "sample_loads (json_trim (clean_output (fenced sample_json))) = Inr sample_data"
    by (simp only: json_trim_clean_fenced [OF h])
  then have "sample_loads (clean_output (fenced sample_json)) = Inr sample_data"
    by (simp only: sample_loads_trim)
  then show "clean_and_parse sample_env (fenced sample_json) = Inr sample_data"
    and "clean_and_parse stuck_env (fenced sample_json) = Inr sample_data"
    by (simp_all add: clean_and_parse_def sample_json_loads)
qed

lemma null_json_chars:
  "null_json = [123, 34, 97, 99, 99, 111, 117, 110, 116, 95, 110, 117, 109, 98, 101, 114, 34,
     58, 32, 110, 117, 108, 108, 44, 32, 34, 115, 111, 114, 116, 95, 99, 111, 100, 101, 34, 58,
     32, 110, 117, 108, 108, 125]"
  by (simp add: null_json_def quoted_def cp_def QUOTE_def)

lemma null_parse: "clean_and_parse null_env null_json = Inr null_data"
proof -
  have s: "strip null_json = null_json"
    unfolding null_json_chars by (simp add: strip_def py_space_def)
  have t: "json_trim null_json = null_json"
    unfolding null_json_chars by (simp add: json_trim_def json_space_def)
  have "BACKTICK \<notin> set (strip null_json)"
    unfolding s unfolding null_json_chars by (simp add: BACKTICK_def)
  then have "clean_output null_json = null_json"
    using clean_no_backtick s by simp
  moreover have "null_json \<noteq> sample_json"
    unfolding null_json_chars sample_json_chars by simp
  ultimately show ?thesis
    by (simp add: clean_and_parse_def sample_json_loads sample_loads_def t)
qed

lemma prose_parse:
  "clean_and_parse prose_env (cp ''Sorry, no data'')
     = Inl (JSONDecodeError (cp ''Expecting value: char 0''))"
proof -
  have c: "cp ''Sorry, no data'' = [83, 111, 114, 114, 121, 44, 32, 110, 111, 32, 100, 97, 116, 97]"
    by (simp add: cp_def)
  have s: "strip (cp ''Sorry, no data'') = cp ''Sorry, no data''"
    unfolding c by (simp add: strip_def py_space_def)
  have t: "json_trim (cp ''Sorry, no data'') = cp ''Sorry, no data''"
    unfolding c by (simp add: json_trim_def json_space_def)
  have k: "takeWhile json_space (cp ''Sorry, no data'') = []"
    unfolding c by (simp add: json_space_def)
  have g: "cp ''Expecting value: char '' @ digits 0 = cp ''Expecting value: char 0''"
    by (simp add: digits.simps cp_def)
  have "BACKTICK \<notin> set (strip (cp ''Sorry, no data''))"
    unfolding s unfolding c by (simp add: BACKTICK_def)
  then have "clean_output (cp ''Sorry, no data'') = cp ''Sorry, no data''"
    using clean_no_backtick s by simp
  moreover have "cp ''Sorry, no data'' \<noteq> sample_json" "cp ''Sorry, no data'' \<noteq> null_json"
    unfolding null_json_chars sample_json_chars c by simp_all
  ultimately show ?thesis
    by (simp add: clean_and_parse_def sample_json_loads sample_loads_def t k g)
qed

lemma sample_valid: "validate_fields sample_data = Inr (True, True)"
  by (simp add: validate_fields_def bind_exn_def sample_data_def cp_def validate_account_def
      validate_sort_code_def account_match sort_code_shape_match unicode_decimal_def
      decimal_ranges_def in_range_def HYPHEN_def)

lemma null_invalid:
  "validate_fields null_data = Inl (TypeError (cp ''expected string or bytes-like object''))"
  by (simp add: validate_fields_def bind_exn_def null_data_def validate_account_def)

lemma sample_run:
  "parse_statement sample_env sample_request sample_world =
     (Returned (Response (response_data sample_data True True sample_text) 200),
      \<lparr>files = {}, prompts = [prompt sample_text]\<rparr>)"
proof -
  have "parse_statement sample_env sample_request sample_world =
     (Returned (Response (response_data sample_data True True sample_text) 200),
      sample_world\<lparr>files := files sample_world
            - {os_path_join UPLOAD_FOLDER (secure_filename sample_env (cp ''a.pdf''))},
         prompts := prompt sample_text # prompts sample_world\<rparr>)"
    by (rule success_path [OF sample_reads(1) sample_file sample_saves(1) sample_extracts(1) sample_strips(1)
          sample_generates(1) sample_fenced_parse(1) sample_valid sample_removes(1)])
  then show ?thesis by (simp add: sample_world_def)
qed

lemma null_run:
  "parse_statement null_env sample_request sample_world =
     (Returned (Response
        (error_details_body (cp ''An error occurred while processing the file'')
           (TypeError (cp ''expected string or bytes-like object''))) 500),
      \<lparr>files = {}, prompts = [prompt sample_text]\<rparr>)"
proof -
  let ?p = "cp ''uploads/a.pdf''"
  let ?w1 = "sample_world\<lparr>files := insert ?p (files sample_world)\<rparr>"
  have "process_stored null_env ?p ?w1 =
      (Inl (TypeError (cp ''expected string or bytes-like object'')),
       ?w1\<lparr>prompts := prompt sample_text # prompts ?w1\<rparr>)"
    by (simp only: stored_interpret [OF sample_extracts(2) sample_strips(1)]
        interpret_invalid [OF sample_generates(3) null_parse null_invalid])
  then have t: "parse_statement_try null_env sample_request sample_world =
      (Inl (TypeError (cp ''expected string or bytes-like object'')),
       ?w1\<lparr>prompts := prompt sample_text # prompts ?w1\<rparr>, Some ?p)"
    by (simp only: try_stored [OF sample_reads(1) sample_file sample_saves(2)] sample_paths fst_conv snd_conv)
  have "parse_statement null_env sample_request sample_world =
     (Returned (Response
        (error_details_body (cp ''An error occurred while processing the file'')
           (TypeError (cp ''expected string or bytes-like object''))) 500),
      (?w1\<lparr>prompts := prompt sample_text # prompts ?w1\<rparr>)
        \<lparr>files := files (?w1\<lparr>prompts := prompt sample_text # prompts ?w1\<rparr>) - {?p}\<rparr>)"
    by (rule handled [OF t _ _ sample_removes(2)]) simp_all
  then show ?thesis by (simp add: sample_world_def)
qed

lemma prose_run:
  "parse_statement prose_env sample_request sample_world =
     (Returned (Response
        (error_details_body (cp ''Failed to parse AI response as JSON'')
           (JSONDecodeError (cp ''Expecting value: char 0''))) 500),
      \<lparr>files = {cp ''uploads/a.pdf''}, prompts = [prompt sample_text]\<rparr>)"
proof -
  let ?p = "cp ''uploads/a.pdf''"
  let ?w1 = "sample_world\<lparr>files := insert ?p (files sample_world)\<rparr>"
  have "process_stored prose_env ?p ?w1 =
      (Inl (JSONDecodeError (cp ''Expecting value: char 0'')),
       ?w1\<lparr>prompts := prompt sample_text # prompts ?w1\<rparr>)"
    by (simp only: stored_interpret [OF sample_extracts(3) sample_strips(1)]
        interpret_unparsed [OF sample_generates(4) prose_parse])
  then have t: "parse_statement_try prose_env sample_request sample_world =
      (Inl (JSONDecodeError (cp ''Expecting value: char 0'')),
       ?w1\<lparr>prompts := prompt sample_text # prompts ?w1\<rparr>, Some ?p)"
    by (simp only: try_stored [OF sample_reads(1) sample_file sample_saves(3)] sample_paths fst_conv snd_conv)
  have "parse_statement prose_env sample_request sample_world =
     (Returned (Response
        (error_details_body (cp ''Failed to parse AI response as JSON'')
           (JSONDecodeError (cp ''Expecting value: char 0''))) 500),
      ?w1\<lparr>prompts := prompt sample_text # prompts ?w1\<rparr>)"
    by (rule unparsed [OF t]) simp
  then show ?thesis by (simp add: sample_world_def)
qed

lemma stuck_run:
  "parse_statement stuck_env sample_request sample_world =
     (Raised (OSError (cp ''Permission denied'')),
      \<lparr>files = {cp ''uploads/a.pdf''}, prompts = [prompt sample_text]\<rparr>)"
proof -
  let ?p = "cp ''uploads/a.pdf''"
  let ?w1 = "sample_world\<lparr>files := insert ?p (files sample_world)\<rparr>"
  have m: "?p \<in> files ?w1" by simp
  have "process_stored stuck_env ?p ?w1 =
      (Inl (OSError (cp ''Permission denied'')),
       ?w1\<lparr>prompts := prompt sample_text # prompts ?w1\<rparr>)"
    by (simp only: stored_interpret [OF sample_extracts(4) sample_strips(1)]
        interpret_stuck [OF m sample_generates(2) sample_fenced_parse(2) sample_valid
          sample_removes(5)])
  then have t: "parse_statement_try stuck_env sample_request sample_world =
      (Inl (OSError (cp ''Permission denied'')),
       ?w1\<lparr>prompts := prompt sample_text # prompts ?w1\<rparr>, Some ?p)"
    by (simp only: try_stored [OF sample_reads(1) sample_file sample_saves(4)] sample_paths fst_conv snd_conv)
  have "parse_statement stuck_env sample_request sample_world =
     (Raised (OSError (cp ''Permission denied'')),
      ?w1\<lparr>prompts := prompt sample_text # prompts ?w1\<rparr>)"
    by (rule handled_stuck [OF t _ _ sample_removes(5)]) simp_all
  then show ?thesis by (simp add: sample_world_def)
qed

lemma blank_stuck_run:
  "parse_statement blank_stuck_env sample_request sample_world =
     (Raised (OSError (cp ''Permission denied'')),
      \<lparr>files = {cp ''uploads/a.pdf''}, prompts = []\<rparr>)"
proof -
  have t: "parse_statement_try blank_stuck_env sample_request sample_world =
      (Inl (OSError (cp ''Permission denied'')),
       sample_world\<lparr>files := insert
          (os_path_join UPLOAD_FOLDER (secure_filename blank_stuck_env (cp ''a.pdf'')))
          (files sample_world)\<rparr>,
       Some (os_path_join UPLOAD_FOLDER (secure_filename blank_stuck_env (cp ''a.pdf''))))"
    by (rule blank_stuck_try [OF sample_reads(1) sample_file sample_saves(6) sample_extracts(6)
          sample_strips(2) sample_removes(6)])
  have "parse_statement blank_stuck_env sample_request sample_world =
     (Raised (OSError (cp ''Permission denied'')),
      sample_world\<lparr>files := insert
          (os_path_join UPLOAD_FOLDER (secure_filename blank_stuck_env (cp ''a.pdf'')))
          (files sample_world)\<rparr>)"
    by (rule handled_stuck [OF t _ _ sample_removes(6)]) simp_all
  then show ?thesis by (simp add: sample_world_def sample_paths)
qed


section \<open>The upload handler\<close>




text \<open>
  Claim C7, as stated, fails when \<open>os.remove\<close> raises on the stored file: its error
  sends the handler to the general \<open>except\<close> clause, the removal is tried again, and
  the error of the second try leaves the handler. No 400 is answered and the file
  stays.
\<close>

theorem blank_removal_error_counterexample:
  "extract_text_from_pdf blank_stuck_env (cp ''uploads/a.pdf'') = Inr (cp '' '' @ [NEWLINE])
   \<and> strip (cp '' '' @ [NEWLINE]) = []
   \<and> parse_statement blank_stuck_env sample_request sample_world =
     (Raised (OSError (cp ''Permission denied'')),
      \<lparr>files = {cp ''uploads/a.pdf''}, prompts = []\<rparr>)"
  by (simp add: blank_stuck_run sample_extracts(6) sample_strips(2))

text \<open>
  Claim C7, as amended. When the upload is stored and the text extracted from its
  pages is empty or white space only, no prompt is sent to the interpreter. When
  \<open>os.remove\<close> succeeds on the stored file, the handler removes it and answers with
  the client error 400 "Could not extract text from PDF". When \<open>os.remove\<close> raises,
  the error is not ignored: it leaves the handler, and the file stays.
\<close>

theorem blank_text_is_client_error:
  assumes "request_files req = Inr (Some f)" and "f \<noteq> []" and "allowed_file f"
    and "p = os_path_join UPLOAD_FOLDER (secure_filename e f)"
    and "save_error e p = None"
    and "extract_text_from_pdf e p = Inr t" and "strip t = []"
  shows "prompts (snd (parse_statement e req w)) = prompts w
    \<and> (remove_error e p = None \<longrightarrow>
         parse_statement e req w =
           (Returned (Response (error_body (cp ''Could not extract text from PDF'')) 400),
            w\<lparr>files := files w - {p}\<rparr>)
         \<and> p \<notin> files (snd (parse_statement e req w)))
    \<and> (\<forall>y. remove_error e p = Some y \<longrightarrow> \<not> is_JSONDecodeError y \<longrightarrow>
         parse_statement e req w = (Raised y, w\<lparr>files := insert p (files w)\<rparr>))"
proof -
  note s = assms(5) [unfolded assms(4)]
  note x = assms(6) [unfolded assms(4)]
  have ok: "parse_statement e req w =
           (Returned (Response (error_body (cp ''Could not extract text from PDF'')) 400),
            w\<lparr>files := files w - {p}\<rparr>)"
    if "remove_error e p = None"
    unfolding assms(4)
    by (rule blank_stored [OF assms(1) assms(2) assms(3) s x assms(7) that [unfolded assms(4)]])
  have tr: "parse_statement_try e req w = (Inl y, w\<lparr>files := insert p (files w)\<rparr>, Some p)"
    if "remove_error e p = Some y" for y
    unfolding assms(4)
    by (rule blank_stuck_try [OF assms(1) assms(2) assms(3) s x assms(7) that [unfolded assms(4)]])
  have stuck: "parse_statement e req w = (Raised y, w\<lparr>files := insert p (files w)\<rparr>)"
    if "remove_error e p = Some y" "\<not> is_JSONDecodeError y" for y
    by (rule handled_stuck [OF tr [OF that(1)] that(2) _ that(1)]) simp
  have "prompts (snd (parse_statement e req w)) = prompts w"
  proof (cases "remove_error e p")
    case None
    then show ?thesis using ok by simp
  next
    case (Some y)
    show ?thesis
    proof (cases "is_JSONDecodeError y")
      case True
      show ?thesis using unparsed [OF tr [OF Some] True] by simp
    next
      case False
      show ?thesis using stuck [OF Some False] by simp
    qed
  qed
  moreover have "remove_error e p = None \<longrightarrow>
         parse_statement e req w =
           (Returned (Response (error_body (cp ''Could not extract text from PDF'')) 400),
            w\<lparr>files := files w - {p}\<rparr>)
         \<and> p \<notin> files (snd (parse_statement e req w))"
    using ok by simp
  ultimately show ?thesis using stuck by blast
qed

theorem blank_text_is_client_error_witness:
  "strip (cp '' '' @ [NEWLINE]) = []
   \<and> remove_error blank_env (cp ''uploads/a.pdf'') = None
   \<and> parse_statement blank_env sample_request sample_world =
      (Returned (Response (error_body (cp ''Could not extract text from PDF'')) 400),
       sample_world)
   \<and> prompts (snd (parse_statement blank_env sample_request sample_world)) = []"
proof -
  have r: "remove_error blank_env (cp ''uploads/a.pdf'') = None"
    by (rule sample_removes(4))
  have "parse_statement blank_env sample_request sample_world =
      (Returned (Response (error_body (cp ''Could not extract text from PDF'')) 400),
       sample_world\<lparr>files := files sample_world - {cp ''uploads/a.pdf''}\<rparr>)"
    using blank_text_is_client_error [OF sample_reads(1) sample_file sample_paths(5) [symmetric]
        sample_saves(5) sample_extracts(5) sample_strips(2), of sample_world] r
    by blast
  then show ?thesis
    using sample_strips(2) r by (simp add: sample_world_def)
qed

text \<open>
  Claim C9. Every answer 200 of \<open>parse_statement\<close> has this body: the flag \<open>success\<close>
  set, the parsed answer of the interpreter as it is under \<open>data\<close>, the two
  answers of \<open>validate_account\<close> and \<open>validate_sort_code\<close> on the fields
  \<open>account_number\<close> and \<open>sort_code\<close> (an absent field is validated as the empty
  string, and is invalid), and the first 500 characters of the extracted text.
\<close>

theorem success_response:
  assumes "parse_statement e req w = (Returned (Response b 200), w')"
  shows "\<exists>f t out kvs av sv.
      request_files req = Inr (Some f)
    \<and> extract_text_from_pdf e (os_path_join UPLOAD_FOLDER (secure_filename e f)) = Inr t
    \<and> generate_content e (prompt t) = Inr out
    \<and> clean_and_parse e out = Inr (PDict kvs)
    \<and> validate_account (case map_of kvs (cp ''account_number'') of Some v \<Rightarrow> v | None \<Rightarrow> PStr [])
        = Inr av
    \<and> validate_sort_code (case map_of kvs (cp ''sort_code'') of Some v \<Rightarrow> v | None \<Rightarrow> PStr [])
        = Inr sv
    \<and> (map_of kvs (cp ''account_number'') = None \<longrightarrow> \<not> av)
    \<and> (map_of kvs (cp ''sort_code'') = None \<longrightarrow> \<not> sv)
    \<and> b = PDict [(cp ''success'', PBool True),
                  (cp ''data'', PDict kvs),
                  (cp ''validation'',
                     PDict [(cp ''account_number_valid'', PBool av),
                            (cp ''sort_code_valid'', PBool sv)]),
                  (cp ''extracted_text_preview'', PStr (take 500 t))]"
proof -
  from parse_200 [OF assms] obtain l where
    "parse_statement_try e req w = (Inr (Response b 200), w', l)" by blast
  from try_200 [OF this] obtain f w1 where f: "request_files req = Inr (Some f)"
    and "process_stored e (os_path_join UPLOAD_FOLDER (secure_filename e f)) w1
      = (Inr (Response b 200), w')" by blast
  from stored_200 [OF this(2)] obtain t out data av sv where
    t: "extract_text_from_pdf e (os_path_join UPLOAD_FOLDER (secure_filename e f)) = Inr t"
    and g: "generate_content e (prompt t) = Inr out"
    and c: "clean_and_parse e out = Inr data"
    and v: "validate_fields data = Inr (av, sv)"
    and b: "b = response_data data av sv t" by blast
  from validate_fields_Inr [OF v] obtain kvs where d: "data = PDict kvs"
    and a: "validate_account (case map_of kvs (cp ''account_number'') of Some v \<Rightarrow> v | None \<Rightarrow> PStr [])
        = Inr av"
    and s: "validate_sort_code (case map_of kvs (cp ''sort_code'') of Some v \<Rightarrow> v | None \<Rightarrow> PStr [])
        = Inr sv" by blast
  have na: "map_of kvs (cp ''account_number'') = None \<longrightarrow> \<not> av"
  proof
    assume "map_of kvs (cp ''account_number'') = None"
    with a have "validate_account (PStr []) = Inr av" by simp
    then show "\<not> av" by (simp add: validate_empty(1))
  qed
  have ns: "map_of kvs (cp ''sort_code'') = None \<longrightarrow> \<not> sv"
  proof
    assume "map_of kvs (cp ''sort_code'') = None"
    with s have "validate_sort_code (PStr []) = Inr sv" by simp
    then show "\<not> sv" by (simp add: validate_empty(2))
  qed
  have c': "clean_and_parse e out = Inr (PDict kvs)"
    using c d by simp
  have b': "b = PDict [(cp ''success'', PBool True),
                  (cp ''data'', PDict kvs),
                  (cp ''validation'',
                     PDict [(cp ''account_number_valid'', PBool av),
                            (cp ''sort_code_valid'', PBool sv)]),
                  (cp ''extracted_text_preview'', PStr (take 500 t))]"
    using b d by (simp only: response_data_def)
  show ?thesis
    apply (rule exI [of _ f])
    apply (rule exI [of _ t])
    apply (rule exI [of _ out])
    apply (rule exI [of _ kvs])
    apply (rule exI [of _ av])
    apply (rule exI [of _ sv])
    apply (intro conjI)
            apply (rule f)
           apply (rule t)
          apply (rule g)
         apply (rule c')
        apply (rule a)
       apply (rule s)
      apply (rule na)
     apply (rule ns)
    apply (rule b')
    done
qed

theorem success_response_witness:
  "\<exists>f t out kvs av sv.
      request_files sample_request = Inr (Some f)
    \<and> extract_text_from_pdf sample_env (os_path_join UPLOAD_FOLDER (secure_filename sample_env f))
        = Inr t
    \<and> generate_content sample_env (prompt t) = Inr out
    \<and> clean_and_parse sample_env out = Inr (PDict kvs)
    \<and> validate_account (case map_of kvs (cp ''account_number'') of Some v \<Rightarrow> v | None \<Rightarrow> PStr [])
        = Inr av
    \<and> validate_sort_code (case map_of kvs (cp ''sort_code'') of Some v \<Rightarrow> v | None \<Rightarrow> PStr [])
        = Inr sv
    \<and> (map_of kvs (cp ''account_number'') = None \<longrightarrow> \<not> av)
    \<and> (map_of kvs (cp ''sort_code'') = None \<longrightarrow> \<not> sv)
    \<and> response_data sample_data True True sample_text
        = PDict [(cp ''success'', PBool True),
                  (cp ''data'', PDict kvs),
                  (cp ''validation'',
                     PDict [(cp ''account_number_valid'', PBool av),
                            (cp ''sort_code_valid'', PBool sv)]),
                  (cp ''extracted_text_preview'', PStr (take 500 t))]"
  by (rule success_response [OF sample_run])

section \<open>Fields that are null, and the empty object\<close>

text \<open>
  Claim C3 fails on \<open>None\<close>: both validators raise \<open>TypeError\<close>. A field that is
  present with the value \<open>null\<close> reaches them as \<open>None\<close>, since the default of
  \<open>data.get\<close> stands in for absent keys only; \<open>validate_data\<close> then answers 500,
  and so does \<open>parse_statement\<close> on an interpreter that writes \<open>null\<close> for a field
  it did not find.
\<close>

theorem null_field_raises:
  "validate_account PNone = Inl (TypeError (cp ''expected string or bytes-like object''))
   \<and> validate_sort_code PNone = Inl (TypeError (cp ''expected string or bytes-like object''))
   \<and> validate_data (Inr null_data)
       = Response (error_details_body (cp ''Validation failed'')
           (TypeError (cp ''expected string or bytes-like object''))) 500
   \<and> fst (parse_statement null_env sample_request sample_world)
       = Returned (Response
           (error_details_body (cp ''An error occurred while processing the file'')
              (TypeError (cp ''expected string or bytes-like object''))) 500)"
proof -
  have "validate_data (Inr null_data)
       = Response (error_details_body (cp ''Validation failed'')
           (TypeError (cp ''expected string or bytes-like object''))) 500"
    by (simp add: validate_data_def validate_data_try_def bind_exn_def null_data_def
        validate_account_def cp_def)
  then show ?thesis
    by (simp add: null_run validate_account_def validate_sort_code_def)
qed

text \<open>
  Claim C4, as stated, fails: the empty object is falsy, and the guard \<open>if not data\<close>
  answers it with 400.
\<close>

theorem validate_empty_object_counterexample:
  "validate_data (Inr (PDict [])) = Response (error_body (cp ''No JSON data provided'')) 400
   \<and> status (validate_data (Inr (PDict []))) \<noteq> 200"
  by (simp add: validate_data_def validate_data_try_def bind_exn_def)

text \<open>
  Claim C4, as amended. The empty object is answered with 400 and the message
  "No JSON data provided". An object that is not empty and has neither field is
  answered with 200, both fields echoed as the empty string and both flags false.
\<close>

theorem validate_without_fields:
  "validate_data (Inr (PDict [])) = Response (error_body (cp ''No JSON data provided'')) 400
   \<and> (kvs \<noteq> [] \<longrightarrow> map_of kvs (cp ''account_number'') = None
        \<longrightarrow> map_of kvs (cp ''sort_code'') = None
        \<longrightarrow> validate_data (Inr (PDict kvs))
            = Response (PDict [(cp ''account_number'', PStr []),
                               (cp ''account_valid'', PBool False),
                               (cp ''sort_code'', PStr []),
                               (cp ''sort_code_valid'', PBool False)]) 200)"
  by (simp add: validate_data_def validate_data_try_def bind_exn_def validate_empty)

theorem validate_without_fields_witness:
  "validate_data (Inr (PDict [(cp ''note'', PInt 1)]))
     = Response (PDict [(cp ''account_number'', PStr []),
                        (cp ''account_valid'', PBool False),
                        (cp ''sort_code'', PStr []),
                        (cp ''sort_code_valid'', PBool False)]) 200"
proof -
  have "map_of [(cp ''note'', PInt 1)] (cp ''account_number'') = None"
    and "map_of [(cp ''note'', PInt 1)] (cp ''sort_code'') = None"
    by (simp_all add: cp_def)
  with validate_without_fields [of "[(cp ''note'', PInt 1)]"] show ?thesis by blast
qed

section \<open>Removal of the stored file\<close>

text \<open>
  Claim C5, as stated, fails: an error of \<open>os.remove\<close> is not ignored. On the success
  path it sends the handler to its general \<open>except\<close> clause, which tries the removal
  again, and the error of that second try leaves the handler; the file stays.
\<close>

theorem deletion_error_counterexample:
  "parse_statement stuck_env sample_request sample_world =
     (Raised (OSError (cp ''Permission denied'')),
      \<lparr>files = {cp ''uploads/a.pdf''}, prompts = [prompt sample_text]\<rparr>)
   \<and> cp ''uploads/a.pdf'' \<in> files (snd (parse_statement stuck_env sample_request sample_world))"
  by (simp add: stuck_run)

text \<open>
  Claim C5, as amended. Once the upload is stored, and when the file system carries
  out the removal, the stored file is gone when the handler ends, and the handler ends
  with a response, on every path but one: the success path, the path of a statement
  without text, and every exception that the general \<open>except\<close> clause handles. The
  path left out is the \<open>JSONDecodeError\<close> clause, about which this says nothing.
\<close>

theorem stored_file_removed:
  assumes "request_files req = Inr (Some f)" and "f \<noteq> []" and "allowed_file f"
    and "p = os_path_join UPLOAD_FOLDER (secure_filename e f)"
    and "save_error e p = None"
    and "remove_error e p = None"
    and "\<forall>x. fst (parse_statement_try e req w) = Inl x \<longrightarrow> \<not> is_JSONDecodeError x"
  shows "p \<notin> files (snd (parse_statement e req w))
    \<and> (\<exists>r. fst (parse_statement e req w) = Returned r)"
proof -
  let ?w1 = "w\<lparr>files := insert p (files w)\<rparr>"
  obtain r w2 where ps: "process_stored e p ?w1 = (r, w2)"
    by (cases "process_stored e p ?w1") auto
  have m: "p \<in> files ?w1" by simp
  have t: "parse_statement_try e req w = (r, w2, Some p)"
    using try_stored [OF assms(1) assms(2) assms(3) assms(5) [unfolded assms(4)], of w] ps
    unfolding assms(4) by simp
  show ?thesis
  proof (cases r)
    case (Inr resp)
    with stored_files [OF m assms(6)] ps have "p \<notin> files w2" by simp
    moreover have "parse_statement e req w = (Returned resp, w2)"
      using t Inr by (intro returned) simp
    ultimately show ?thesis by simp
  next
    case (Inl x)
    with stored_files [OF m assms(6)] ps have in2: "p \<in> files w2" by simp
    have nj: "\<not> is_JSONDecodeError x"
      using assms(7) t Inl by simp
    have "parse_statement e req w =
      (Returned (Response
        (error_details_body (cp ''An error occurred while processing the file'') x) 500),
       w2\<lparr>files := files w2 - {p}\<rparr>)"
      using t Inl by (intro handled [OF _ nj in2 assms(6)]) simp
    then show ?thesis by simp
  qed
qed

theorem stored_file_removed_witness:
  "cp ''uploads/a.pdf'' \<notin> files (snd (parse_statement null_env sample_request sample_world))
   \<and> (\<exists>r. fst (parse_statement null_env sample_request sample_world) = Returned r)"
proof -
  let ?p = "cp ''uploads/a.pdf''"
  let ?w1 = "sample_world\<lparr>files := insert ?p (files sample_world)\<rparr>"
  have "process_stored null_env ?p ?w1 =
      (Inl (TypeError (cp ''expected string or bytes-like object'')),
       ?w1\<lparr>prompts := prompt sample_text # prompts ?w1\<rparr>)"
    by (simp only: stored_interpret [OF sample_extracts(2) sample_strips(1)]
        interpret_invalid [OF sample_generates(3) null_parse null_invalid])
  then have "fst (parse_statement_try null_env sample_request sample_world)
      = Inl (TypeError (cp ''expected string or bytes-like object''))"
    by (simp only: try_stored [OF sample_reads(1) sample_file sample_saves(2)] sample_paths fst_conv snd_conv)
  then have h: "\<forall>x. fst (parse_statement_try null_env sample_request sample_world) = Inl x
      \<longrightarrow> \<not> is_JSONDecodeError x"
    by simp
  show ?thesis
    by (rule stored_file_removed [OF sample_reads(1) sample_file sample_paths(2) [symmetric] sample_saves(2)
          sample_removes(2) h])
qed

end
